theory Spec2Isabelle
  imports Complex_Main "HOL-Library.Word" "HOL-Library.Char_ord" "HOL-Library.List_Lexorder"
begin

section \<open>Values shared by both modules\<close>

text \<open>
  Python exceptions that the modelled code can raise or let through. A fallible function
  returns \<open>py_error + 'a\<close>, with \<open>Inl\<close> for the exception.
\<close>

datatype py_error = ValueError | IndexError | ZeroDivisionError | StructError

type_synonym byte = "8 word"
type_synonym bytes = "byte list"

text \<open>A list comprehension whose element expression can raise: the first exception wins.\<close>

fun traverse :: "('a \<Rightarrow> py_error + 'b) \<Rightarrow> 'a list \<Rightarrow> py_error + 'b list" where
  "traverse f [] = Inr []"
| "traverse f (x # xs) =
     (case f x of
        Inl e \<Rightarrow> Inl e
      | Inr y \<Rightarrow> (case traverse f xs of Inl e \<Rightarrow> Inl e | Inr ys \<Rightarrow> Inr (y # ys)))"

section \<open>The MAP fingerprint (skfp/fingerprints/map.py)\<close>

subsection \<open>Configuration, molecule objects and library functions\<close>

datatype variant = RawHashes | BitVariant | CountVariant

text \<open>
  The attributes of a \<open>MAPFingerprint\<close> object that the fingerprint computation reads.
  \<open>fp_size\<close> and \<open>radius\<close> are natural numbers: the parameter constraints of the
  class admit integers from 1 and from 0 respectively.
\<close>

record MAPFingerprint =
  fp_size :: nat
  radius :: nat
  variant :: variant
  random_state :: int

text \<open>
  A molecule is an object of the chemistry toolkit. The model keeps what the code asks
  the toolkit about it, one field per toolkit call:
  \<^item> \<open>GetNumAtoms\<close>: the number of atoms; \<open>GetAtoms\<close> yields the atoms with indices
    \<open>0, ..., GetNumAtoms - 1\<close>;
  \<^item> \<open>GetDistanceMatrix\<close>: the matrix of shortest-path lengths, of floating-point entries
    (modelled as reals);
  \<^item> \<open>FindAtomEnvironmentOfRadiusN\<close>: given the second and third positional argument of
    the call, which the toolkit reads as \<open>radius\<close> and \<open>rootedAtAtom\<close>, the bond path
    found, or \<open>None\<close> when the toolkit raises \<open>ValueError\<close>;
  \<^item> \<open>PathToSubmol\<close>: given a bond path, the atom map that the call fills in (from atom
    indices of the molecule to atom indices of the sub-molecule);
  \<^item> \<open>MolToSmiles\<close>: the canonical, non-isomeric SMILES string of the sub-molecule of a
    bond path, rooted at the given atom of the sub-molecule.
\<close>

record Mol =
  GetNumAtoms :: nat
  GetDistanceMatrix :: "nat \<Rightarrow> nat \<Rightarrow> real"
  FindAtomEnvironmentOfRadiusN :: "nat \<Rightarrow> nat \<Rightarrow> nat list option"
  PathToSubmol :: "nat list \<Rightarrow> (nat \<rightharpoonup> nat)"
  MolToSmiles :: "nat list \<Rightarrow> nat \<Rightarrow> string"

text \<open>
  The two library functions behind the hashing, taken as parameters:
  \<^item> \<open>hashlib_sha1\<close>: the digest of \<open>hashlib.sha1\<close>;
  \<^item> \<open>minhash_perm\<close>: Modelled from the spec: the MinHash sketch of the \<open>datasketch\<close>
    library is not part of the sources. \<open>minhash_perm seed k s\<close> is the hash value of the
    shingle \<open>s\<close> under the \<open>k\<close>-th permutation function of the sketch seeded with \<open>seed\<close>.
\<close>

record library =
  hashlib_sha1 :: "bytes \<Rightarrow> bytes"
  minhash_perm :: "int \<Rightarrow> nat \<Rightarrow> bytes \<Rightarrow> nat"

subsection \<open>Strings, integers and bytes\<close>

text \<open>\<open>int(x)\<close> on a float truncates towards zero.\<close>

definition py_int :: "real \<Rightarrow> int" where
  "py_int x = (if 0 \<le> x then \<lfloor>x\<rfloor> else \<lceil>x\<rceil>)"

text \<open>\<open>str(n)\<close> on an integer: its decimal digits, with a minus sign when negative.\<close>

definition digit_char :: "nat \<Rightarrow> char" where
  "digit_char d = ''0123456789'' ! d"

function str_nat :: "nat \<Rightarrow> string" where
  "str_nat n = (if n < 10 then [digit_char n] else str_nat (n div 10) @ [digit_char (n mod 10)])"
  by pat_completeness auto
termination
  by (relation "measure id") auto

declare str_nat.simps [simp del]

definition py_str :: "int \<Rightarrow> string" where
  "py_str i = (if i < 0 then CHR ''-'' # str_nat (nat (- i)) else str_nat (nat i))"

text \<open>\<open>sorted([a, b])\<close> on two strings: a stable sort by code point order.\<close>

definition sorted2 :: "string \<Rightarrow> string \<Rightarrow> string list" where
  "sorted2 a b = (if b < a then [b, a] else [a, b])"

text \<open>\<open>s.encode()\<close>: the strings here are ASCII, one byte per character.\<close>

definition encode :: "string \<Rightarrow> bytes" where
  "encode s = map (\<lambda>c. of_nat (of_char c)) s"

text \<open>The truth value of an optional string: \<open>None\<close> and the empty string are false.\<close>

definition truthy :: "string option \<Rightarrow> bool" where
  "truthy e = (case e of None \<Rightarrow> False | Some s \<Rightarrow> s \<noteq> [])"

subsection \<open>Neighbourhoods\<close>

text \<open>
  \<open>_find_neighborhood\<close>. The source passes \<open>atom_idx\<close> and \<open>n_radius\<close> to
  \<open>FindAtomEnvironmentOfRadiusN\<close> positionally, in this order, and catches \<open>ValueError\<close>:
  the toolkit receives \<open>atom_idx\<close> as its radius and \<open>n_radius\<close> as its atom.
\<close>

definition find_neighborhood :: "Mol \<Rightarrow> nat \<Rightarrow> nat \<Rightarrow> string option" where
  "find_neighborhood mol atom_idx n_radius =
     (case FindAtomEnvironmentOfRadiusN mol atom_idx n_radius of
        None \<Rightarrow> None
      | Some env \<Rightarrow>
          (let atom_map = PathToSubmol mol env in
           case atom_map atom_idx of
             Some rooted \<Rightarrow> Some (MolToSmiles mol env rooted)
           | None \<Rightarrow> None))"

text \<open>
  \<open>_get_atom_envs\<close>. The result is a \<open>defaultdict(list)\<close>: a key never written reads as
  the empty list.
\<close>

type_synonym atoms_envs = "nat \<Rightarrow> string option list"

definition get_atom_envs :: "MAPFingerprint \<Rightarrow> Mol \<Rightarrow> atoms_envs" where
  "get_atom_envs self mol =
     fold (\<lambda>idx atoms_env.
             atoms_env (idx := atoms_env idx @
               map (find_neighborhood mol idx) [1 ..< radius self + 1]))
          [0 ..< GetNumAtoms mol] (\<lambda>idx. [])"

subsection \<open>Shingles\<close>

text \<open>\<open>itertools.combinations(range(n), 2)\<close>: the pairs \<open>(i, j)\<close> with \<open>i < j < n\<close>,
  by increasing \<open>i\<close>, then increasing \<open>j\<close>.\<close>

definition combinations2 :: "nat \<Rightarrow> (nat \<times> nat) list" where
  "combinations2 n = concat (map (\<lambda>i. map (Pair i) [i + 1 ..< n]) [0 ..< n])"

text \<open>\<open>shingle_dict[shingle] += 1\<close> on a \<open>defaultdict(int)\<close>; a dict keeps insertion order.\<close>

fun dict_incr :: "(string \<times> nat) list \<Rightarrow> string \<Rightarrow> (string \<times> nat) list" where
  "dict_incr [] k = [(k, 1)]"
| "dict_incr ((k', c) # d) k = (if k' = k then (k', c + 1) # d else (k', c) # dict_incr d k)"

text \<open>The shingle string of two present neighbourhood strings and a distance string.\<close>

definition shingle_str :: "string \<Rightarrow> string \<Rightarrow> string \<Rightarrow> string" where
  "shingle_str env_a_radius dist_s env_b_radius =
     (let ordered = sorted2 env_a_radius env_b_radius in
      ordered ! 0 @ ''|'' @ dist_s @ ''|'' @ ordered ! 1)"

text \<open>The state of the two loops: the list \<open>shingles\<close> and the dict \<open>shingle_dict\<close>.\<close>

type_synonym shingle_state = "string list \<times> (string \<times> nat) list"

text \<open>The body of the inner loop, at index \<open>i\<close> of \<open>range(self.radius)\<close>.\<close>

definition radius_step ::
  "MAPFingerprint \<Rightarrow> string \<Rightarrow> string option list \<Rightarrow> string option list \<Rightarrow> nat \<Rightarrow>
   shingle_state \<Rightarrow> py_error + shingle_state" where
  "radius_step self dist_s env_a env_b i st =
     (if length env_a \<le> i \<or> length env_b \<le> i then Inl IndexError
      else
        let env_a_radius = env_a ! i; env_b_radius = env_b ! i in
        if \<not> truthy env_a_radius \<or> \<not> truthy env_b_radius then Inr st
        else
          let shingle = shingle_str (the env_a_radius) dist_s (the env_b_radius) in
          if variant self = CountVariant then Inr (fst st, dict_incr (snd st) shingle)
          else Inr (fst st @ [shingle], snd st))"

fun radius_loop ::
  "MAPFingerprint \<Rightarrow> string \<Rightarrow> string option list \<Rightarrow> string option list \<Rightarrow> nat list \<Rightarrow>
   shingle_state \<Rightarrow> py_error + shingle_state" where
  "radius_loop self dist_s env_a env_b [] st = Inr st"
| "radius_loop self dist_s env_a env_b (i # rest) st =
     (case radius_step self dist_s env_a env_b i st of
        Inl e \<Rightarrow> Inl e
      | Inr st' \<Rightarrow> radius_loop self dist_s env_a env_b rest st')"

fun pair_loop ::
  "MAPFingerprint \<Rightarrow> Mol \<Rightarrow> atoms_envs \<Rightarrow> (nat \<times> nat) list \<Rightarrow>
   shingle_state \<Rightarrow> py_error + shingle_state" where
  "pair_loop self mol atoms_envs [] st = Inr st"
| "pair_loop self mol atoms_envs ((idx_1, idx_2) # ps) st =
     (let dist_s = py_str (py_int (GetDistanceMatrix mol idx_1 idx_2));
          env_a = atoms_envs idx_1;
          env_b = atoms_envs idx_2
      in case radius_loop self dist_s env_a env_b [0 ..< radius self] st of
           Inl e \<Rightarrow> Inl e
         | Inr st' \<Rightarrow> pair_loop self mol atoms_envs ps st')"

text \<open>\<open>_get_atom_pair_shingles\<close>.\<close>

definition get_atom_pair_shingles ::
  "MAPFingerprint \<Rightarrow> Mol \<Rightarrow> atoms_envs \<Rightarrow> py_error + bytes list" where
  "get_atom_pair_shingles self mol atoms_envs =
     (case pair_loop self mol atoms_envs (combinations2 (GetNumAtoms mol)) ([], []) of
        Inl e \<Rightarrow> Inl e
      | Inr (shingles, shingle_dict) \<Rightarrow>
          Inr (map encode
                 (if variant self = CountVariant
                  then shingles @
                       map (\<lambda>(shingle, shingle_count). shingle @ ''|'' @ py_str (int shingle_count))
                           shingle_dict
                  else shingles)))"

subsection \<open>Hashing and folding\<close>

text \<open>\<open>struct.unpack("<I", b)[0]\<close>: four bytes read as an unsigned little-endian integer;
  any other length raises \<open>struct.error\<close>.\<close>

definition le_value :: "bytes \<Rightarrow> nat" where
  "le_value bs = foldr (\<lambda>b acc. unat b + 256 * acc) bs 0"

definition struct_unpack_I :: "bytes \<Rightarrow> py_error + nat" where
  "struct_unpack_I bs = (if length bs = 4 then Inr (le_value bs) else Inl StructError)"

text \<open>\<open>_get_hash\<close>.\<close>

definition get_hash :: "library \<Rightarrow> bytes \<Rightarrow> py_error + nat" where
  "get_hash lib shingle =
     (let hash_bytes = hashlib_sha1 lib shingle in struct_unpack_I (take 4 hash_bytes))"

text \<open>\<open>a % b\<close> on non-negative integers.\<close>

definition py_mod :: "nat \<Rightarrow> nat \<Rightarrow> py_error + nat" where
  "py_mod a b = (if b = 0 then Inl ZeroDivisionError else Inr (a mod b))"

text \<open>\<open>np.bincount(bits, minlength=n)\<close>: entry \<open>k\<close> counts the occurrences of \<open>k\<close>; the length
  is \<open>n\<close>, or the largest value plus one when that is more.\<close>

definition np_bincount :: "nat list \<Rightarrow> nat \<Rightarrow> nat list" where
  "np_bincount bits minlength =
     map (count_list bits)
         [0 ..< max minlength (case bits of [] \<Rightarrow> 0 | _ \<Rightarrow> Suc (fold max bits 0))]"

text \<open>Modelled from the spec: the digest of the MinHash sketch of the \<open>datasketch\<close> library,
  which is not part of the sources. It has one entry per permutation function, the minimum
  hash value seen for that permutation across all shingles; the sketch starts from the
  largest 32-bit value.\<close>

definition minhash_digest :: "library \<Rightarrow> nat \<Rightarrow> int \<Rightarrow> bytes list \<Rightarrow> nat list" where
  "minhash_digest lib num_perm seed shingles =
     map (\<lambda>k. fold (\<lambda>s m. min (minhash_perm lib seed k s) m) shingles (2 ^ 32 - 1))
         [0 ..< num_perm]"

text \<open>Lines 169 to 171 of \<open>_calculate_single_mol_fingerprint\<close>: the bucket indices.\<close>

definition fold_bits :: "library \<Rightarrow> MAPFingerprint \<Rightarrow> bytes list \<Rightarrow> py_error + nat list" where
  "fold_bits lib self shingles =
     (case traverse (get_hash lib) shingles of
        Inl e \<Rightarrow> Inl e
      | Inr hashes \<Rightarrow> traverse (\<lambda>hash_val. py_mod hash_val (fp_size self)) hashes)"

text \<open>Lines 163 to 173: the encoding of the shingles of one molecule.\<close>

definition encode_shingles ::
  "library \<Rightarrow> MAPFingerprint \<Rightarrow> bytes list \<Rightarrow> py_error + nat list" where
  "encode_shingles lib self shingles =
     (if variant self = RawHashes
      then Inr (minhash_digest lib (fp_size self) (random_state self) shingles)
      else
        case fold_bits lib self shingles of
          Inl e \<Rightarrow> Inl e
        | Inr bits \<Rightarrow> Inr (np_bincount bits (fp_size self)))"

text \<open>\<open>_calculate_single_mol_fingerprint\<close>.\<close>

definition calculate_single_mol_fingerprint ::
  "library \<Rightarrow> MAPFingerprint \<Rightarrow> Mol \<Rightarrow> py_error + nat list" where
  "calculate_single_mol_fingerprint lib self mol =
     (let atoms_envs = get_atom_envs self mol in
      case get_atom_pair_shingles self mol atoms_envs of
        Inl e \<Rightarrow> Inl e
      | Inr shingles \<Rightarrow> encode_shingles lib self shingles)"

subsection \<open>The shingle occurrences, in closed form\<close>

text \<open>What one pass of the inner loop body contributes at index \<open>i\<close>: the shingle, when both
  entries pass the truth test of the source.\<close>

definition step_occurrences ::
  "string \<Rightarrow> string option list \<Rightarrow> string option list \<Rightarrow> nat \<Rightarrow> string list" where
  "step_occurrences dist_s env_a env_b i =
     (if truthy (env_a ! i) \<and> truthy (env_b ! i)
      then [shingle_str (the (env_a ! i)) dist_s (the (env_b ! i))] else [])"

definition pair_occurrences ::
  "MAPFingerprint \<Rightarrow> Mol \<Rightarrow> atoms_envs \<Rightarrow> (nat \<times> nat) list \<Rightarrow> string list" where
  "pair_occurrences self mol atoms_envs ps =
     concat (map (\<lambda>(idx_1, idx_2).
               concat (map (step_occurrences
                              (py_str (py_int (GetDistanceMatrix mol idx_1 idx_2)))
                              (atoms_envs idx_1) (atoms_envs idx_2))
                           [0 ..< radius self])) ps)"

text \<open>
  The specification's shingle generator (section 4.2), in its own words: for every pair of
  atom indices \<open>i < j\<close> and every radius \<open>r\<close> from 1 to the maximal radius, skip the
  combination when one of the two neighbourhoods is absent, and otherwise emit the two
  strings in sorted order around the truncated distance. The neighbourhood of radius \<open>r\<close>
  is entry \<open>r - 1\<close> of the atom's list.
\<close>

definition spec_shingle :: "string \<Rightarrow> int \<Rightarrow> string \<Rightarrow> string" where
  "spec_shingle env_i distance env_j =
     min env_i env_j @ ''|'' @ py_str distance @ ''|'' @ max env_i env_j"

definition spec_shingles_at ::
  "Mol \<Rightarrow> atoms_envs \<Rightarrow> nat \<Rightarrow> nat \<Rightarrow> nat \<Rightarrow> string list" where
  "spec_shingles_at mol neighborhoods i j r =
     (case (neighborhoods i ! (r - 1), neighborhoods j ! (r - 1)) of
        (Some env_i, Some env_j) \<Rightarrow>
          [spec_shingle env_i (py_int (GetDistanceMatrix mol i j)) env_j]
      | _ \<Rightarrow> [])"

definition spec_occurrences :: "MAPFingerprint \<Rightarrow> Mol \<Rightarrow> atoms_envs \<Rightarrow> string list" where
  "spec_occurrences self mol neighborhoods =
     concat (map (\<lambda>(i, j). concat (map (spec_shingles_at mol neighborhoods i j)
                                        [1 ..< radius self + 1]))
                 (combinations2 (GetNumAtoms mol)))"

text \<open>
  The specification's count mode (section 4.2): occurrence counts are accumulated in a
  mapping keyed by the shingle string, and one entry per distinct shingle is emitted, in
  the order of first occurrence, with the occurrence count appended.
\<close>

definition spec_distinct :: "string list \<Rightarrow> string list" where
  "spec_distinct occurrences = rev (remdups (rev occurrences))"

definition spec_count_entries :: "string list \<Rightarrow> string list" where
  "spec_count_entries occurrences =
     map (\<lambda>shingle. shingle @ ''|'' @ py_str (int (count_list occurrences shingle)))
         (spec_distinct occurrences)"

text \<open>A neighbourhood table fits a molecule and a configuration when every atom has an entry
  for every radius, and no entry is the empty string (the SMILES string of a sub-molecule
  that contains the atom is not empty).\<close>

definition envs_ok :: "MAPFingerprint \<Rightarrow> Mol \<Rightarrow> atoms_envs \<Rightarrow> bool" where
  "envs_ok self mol atoms_envs =
     list_all (\<lambda>idx. length (atoms_envs idx) = radius self \<and> Some [] \<notin> set (atoms_envs idx))
              [0 ..< GetNumAtoms mol]"

text \<open>The digest of SHA-1 has 20 bytes.\<close>

definition sha1_digest_size :: "library \<Rightarrow> bool" where
  "sha1_digest_size lib = (\<forall>s. length (hashlib_sha1 lib s) = 20)"

text \<open>The toolkit writes no empty SMILES string for a sub-molecule rooted at one of its atoms.\<close>

definition smiles_nonempty :: "Mol \<Rightarrow> bool" where
  "smiles_nonempty mol = (\<forall>env rooted. MolToSmiles mol env rooted \<noteq> [])"

text \<open>
  The specification's bucket index (section 4.3), in its own words: the first 4 bytes of
  the digest, read as an unsigned little-endian 32-bit integer, reduced modulo the output
  size.
\<close>

definition spec_le32 :: "bytes \<Rightarrow> nat" where
  "spec_le32 digest =
     unat (digest ! 0) + 2 ^ 8 * unat (digest ! 1) + 2 ^ 16 * unat (digest ! 2) +
     2 ^ 24 * unat (digest ! 3)"

definition spec_bucket_index :: "library \<Rightarrow> nat \<Rightarrow> bytes \<Rightarrow> nat" where
  "spec_bucket_index lib output_size shingle =
     spec_le32 (hashlib_sha1 lib shingle) mod output_size"

text \<open>The two ways in which the extraction of a neighbourhood finds nothing: the toolkit
  raises \<open>ValueError\<close>, or the atom is not in the atom map of the sub-molecule.\<close>

definition extraction_absent :: "Mol \<Rightarrow> nat \<Rightarrow> nat \<Rightarrow> bool" where
  "extraction_absent mol atom_idx n_radius =
     (case FindAtomEnvironmentOfRadiusN mol atom_idx n_radius of
        None \<Rightarrow> True
      | Some env \<Rightarrow> PathToSubmol mol env atom_idx = None)"

section \<open>The batch transformer (base.py)\<close>

text \<open>
  The elements that a caller can put into the input sequence: a molecule object, a string,
  \<open>None\<close>, or an object of any other type.
\<close>

datatype pyobj = MolObj Mol | StrObj string | NoneObj | OtherObj

text \<open>\<open>isinstance(molecule, Mol)\<close> and \<open>type(molecule) == str\<close>.\<close>

fun is_Mol :: "pyobj \<Rightarrow> bool" where
  "is_Mol (MolObj m) = True"
| "is_Mol _ = False"

fun is_str :: "pyobj \<Rightarrow> bool" where
  "is_str (StrObj s) = True"
| "is_str _ = False"

text \<open>The elements that pass the type test of \<open>_validate_input\<close>.\<close>

definition accepted :: "pyobj \<Rightarrow> bool" where
  "accepted x = (is_Mol x \<or> is_str x)"

text \<open>
  The toolkit's parser \<open>MolFromSmiles\<close> is a parameter: it returns a molecule, or \<open>None\<close>
  for a string that it cannot parse. \<open>parsed\<close> is the object that the source stores.
\<close>

fun parsed :: "(string \<Rightarrow> Mol option) \<Rightarrow> pyobj \<Rightarrow> pyobj" where
  "parsed MolFromSmiles (StrObj s) =
     (case MolFromSmiles s of Some m \<Rightarrow> MolObj m | None \<Rightarrow> NoneObj)"
| "parsed MolFromSmiles x = x"

text \<open>
  \<open>_validate_input\<close>: the loop over \<open>enumerate(X)\<close>, from index \<open>i\<close> on. \<open>X\<close> is the
  caller's sequence, which the assignment \<open>X[i] = ...\<close> updates in place. The result is the
  content of that sequence when the function ends, with the exception raised, if any; when
  none is raised the function returns the sequence itself.
\<close>

function validate_loop ::
  "(string \<Rightarrow> Mol option) \<Rightarrow> nat \<Rightarrow> pyobj list \<Rightarrow> pyobj list \<times> py_error option" where
  "validate_loop MolFromSmiles i X =
     (if length X \<le> i then (X, None)
      else
        let molecule = X ! i in
        if \<not> is_Mol molecule \<and> \<not> is_str molecule then (X, Some ValueError)
        else validate_loop MolFromSmiles (Suc i)
               (if is_str molecule then X [i := parsed MolFromSmiles molecule] else X))"
  by pat_completeness auto
termination
  by (relation "measure (\<lambda>(MolFromSmiles, i, X). length X - i)") auto

declare validate_loop.simps [simp del]

definition validate_input ::
  "(string \<Rightarrow> Mol option) \<Rightarrow> pyobj list \<Rightarrow> pyobj list \<times> py_error option" where
  "validate_input MolFromSmiles X = validate_loop MolFromSmiles 0 X"

text \<open>
  A \<open>FingerprintTransformer\<close> object: the attribute \<open>n_jobs\<close> (the value of
  \<open>effective_n_jobs\<close>, a positive number of workers) and the method
  \<open>_calculate_fingerprint\<close> of the subclass, which is abstract in this class. It returns
  the rows of the matrix, one per molecule, or raises.
\<close>

record 'row FingerprintTransformer =
  n_jobs :: nat
  calculate_fingerprint :: "pyobj list \<Rightarrow> py_error + 'row list"

text \<open>\<open>X[i : i + batch_size] for i in range(0, len(X), batch_size)\<close>.\<close>

definition sub_batches :: "'a list \<Rightarrow> nat \<Rightarrow> 'a list list" where
  "sub_batches X batch_size =
     map (\<lambda>k. take batch_size (drop (k * batch_size) X))
         [0 ..< (length X + batch_size - 1) div batch_size]"

text \<open>\<open>np.concatenate\<close> on a list of matrices of the same width: it raises \<open>ValueError\<close>
  on the empty list.\<close>

definition np_concatenate :: "'row list list \<Rightarrow> py_error + 'row list" where
  "np_concatenate results = (if results = [] then Inl ValueError else Inr (concat results))"

text \<open>
  \<open>transform\<close>. The first component of the result is the content of the caller's sequence
  afterwards, the second the returned matrix or the exception raised. The workers'
  results are collected in the order of submission; an exception of a worker is raised
  in the caller.
\<close>

definition transform ::
  "'row FingerprintTransformer \<Rightarrow> (string \<Rightarrow> Mol option) \<Rightarrow> pyobj list \<Rightarrow>
   pyobj list \<times> (py_error + 'row list)" where
  "transform self MolFromSmiles X0 =
     (case validate_input MolFromSmiles X0 of
        (X, Some e) \<Rightarrow> (X, Inl e)
      | (X, None) \<Rightarrow>
          if n_jobs self = 1 then (X, calculate_fingerprint self X)
          else if n_jobs self = 0 then (X, Inl ZeroDivisionError)
          else
            let batch_size = max (length X div n_jobs self) 1;
                args = sub_batches X batch_size
            in case traverse (calculate_fingerprint self) args of
                 Inl e \<Rightarrow> (X, Inl e)
               | Inr results \<Rightarrow> (X, np_concatenate results))"

text \<open>
  A subclass method computes one row per molecule when it distributes over the
  concatenation of two inputs, the first exception winning.
\<close>

definition rowwise :: "(pyobj list \<Rightarrow> py_error + 'row list) \<Rightarrow> bool" where
  "rowwise calc =
     (\<forall>A B. calc (A @ B) =
        (case calc A of
           Inl e \<Rightarrow> Inl e
         | Inr rows_a \<Rightarrow> (case calc B of Inl e \<Rightarrow> Inl e | Inr rows_b \<Rightarrow> Inr (rows_a @ rows_b))))"

section \<open>Concrete objects\<close>

text \<open>
  A digest function that agrees with SHA-1 on the shingles of cyclobutane below (and
  returns twenty zero bytes elsewhere), and the library record built from it; its
  permutation functions read the first four digest bytes.
\<close>

definition known_sha1 :: "bytes \<Rightarrow> bytes" where
  "known_sha1 s =
     (if s = encode ''C(C)C|1|C1CCC1|1'' then
        [170, 85, 138, 110, 6, 44, 116, 174, 246, 174, 106, 190, 59, 220, 165, 65, 18, 178, 227, 230]
      else if s = encode ''C1CCC1|1|CCC|1'' then
        [106, 33, 202, 178, 29, 172, 231, 99, 140, 198, 116, 251, 196, 240, 219, 59, 50, 144, 108, 5]
      else if s = encode ''C(C)C|2|C1CCC1|1'' then
        [66, 213, 254, 86, 141, 192, 109, 67, 203, 43, 163, 20, 47, 1, 192, 236, 109, 221, 116, 118]
      else if s = encode ''C1CCC1|2|CCC|1'' then
        [12, 244, 88, 117, 36, 95, 172, 254, 173, 213, 88, 179, 239, 118, 122, 192, 109, 65, 129, 239]
      else if s = encode ''C1CCC1|1|C1CCC1|2'' then
        [60, 254, 177, 60, 181, 52, 46, 184, 8, 13, 213, 198, 14, 86, 81, 177, 58, 198, 42, 231]
      else if s = encode ''C(C)C|1|C1CCC1'' then
        [137, 112, 144, 173, 235, 183, 143, 190, 78, 120, 18, 167, 61, 246, 136, 45, 128, 108, 17, 199]
      else replicate 20 0)"

definition example_library :: library where
  "example_library =
     \<lparr>hashlib_sha1 = known_sha1,
      minhash_perm = (\<lambda>seed k s. le_value (take 4 (known_sha1 s)))\<rparr>"

text \<open>
  Ethane, two carbon atoms joined by bond 0, with the answers of the toolkit. An atom
  index from 2 on is a bad atom index (\<open>ValueError\<close>); the path of radius 1 around
  either atom is the bond; there is no path of radius 0, nor of a radius from 2 on (the
  empty path).
\<close>

definition ethane :: Mol where
  "ethane =
     \<lparr>GetNumAtoms = 2,
      GetDistanceMatrix = (\<lambda>i j. if i = j then 0 else 1),
      FindAtomEnvironmentOfRadiusN =
        (\<lambda>radius rootedAtAtom.
           if 2 \<le> rootedAtAtom then None else if radius = 1 then Some [0] else Some []),
      PathToSubmol = (\<lambda>env. if env = [0] then [0 \<mapsto> 0, 1 \<mapsto> 1] else Map.empty),
      MolToSmiles = (\<lambda>env rooted. ''CC'')\<rparr>"

text \<open>
  Cyclobutane, a ring of four carbon atoms: bond 0 joins atoms 0 and 1, bond 1 atoms 1
  and 2, bond 2 atoms 2 and 3, and bond 3 atoms 3 and 0. An atom index from 4 on is a bad
  atom index; the path of radius 1 around an atom holds its two bonds, the paths of radius
  2 and 3 hold the whole ring, and there is no path of radius 0 or of a radius from 4 on.
  The sub-molecule of two bonds is a chain of three atoms, written \<open>C(C)C\<close> from its
  middle atom and \<open>CCC\<close> from an end; the ring is written \<open>C1CCC1\<close>.
\<close>

definition cyclobutane :: Mol where
  "cyclobutane =
     \<lparr>GetNumAtoms = 4,
      GetDistanceMatrix = (\<lambda>i j. if i = j then 0 else if (i + j) mod 2 = 0 then 2 else 1),
      FindAtomEnvironmentOfRadiusN =
        (\<lambda>radius rootedAtAtom.
           if 4 \<le> rootedAtAtom then None
           else if radius = 1 then
             Some (if rootedAtAtom = 0 then [0, 3] else if rootedAtAtom = 1 then [0, 1]
                   else if rootedAtAtom = 2 then [1, 2] else [2, 3])
           else if radius = 2 \<or> radius = 3 then
             Some (if rootedAtAtom = 0 then [0, 3, 1, 2]
                   else if rootedAtAtom = 1 then [0, 1, 3, 2]
                   else if rootedAtAtom = 2 then [1, 2, 0, 3] else [2, 3, 1, 0])
           else Some []),
      PathToSubmol =
        (\<lambda>env. if env = [0, 1] then [0 \<mapsto> 0, 1 \<mapsto> 1, 2 \<mapsto> 2]
               else if env = [1, 2] then [1 \<mapsto> 0, 2 \<mapsto> 1, 3 \<mapsto> 2]
               else if env = [0, 3] then [0 \<mapsto> 0, 1 \<mapsto> 1, 3 \<mapsto> 2]
               else if env = [2, 3] then [2 \<mapsto> 0, 3 \<mapsto> 1, 0 \<mapsto> 2]
               else if env = [0, 1, 3, 2] then [0 \<mapsto> 0, 1 \<mapsto> 1, 2 \<mapsto> 2, 3 \<mapsto> 3]
               else if env = [1, 2, 0, 3] then [1 \<mapsto> 0, 2 \<mapsto> 1, 3 \<mapsto> 2, 0 \<mapsto> 3]
               else if env = [0, 3, 1, 2] then [0 \<mapsto> 0, 1 \<mapsto> 1, 3 \<mapsto> 2, 2 \<mapsto> 3]
               else if env = [2, 3, 1, 0] then [2 \<mapsto> 0, 3 \<mapsto> 1, 0 \<mapsto> 2, 1 \<mapsto> 3]
               else Map.empty),
      MolToSmiles =
        (\<lambda>env rooted.
           if length env = 4 then ''C1CCC1''
           else if (env = [0, 3] \<and> rooted = 0) \<or> (env \<noteq> [0, 3] \<and> rooted = 1) then ''C(C)C''
           else ''CCC'')\<rparr>"

text \<open>Two configurations with the default radius 2 and eight buckets.\<close>

definition count_config :: MAPFingerprint where
  "count_config = \<lparr>fp_size = 8, radius = 2, variant = CountVariant, random_state = 0\<rparr>"

definition bit_config :: MAPFingerprint where
  "bit_config = \<lparr>fp_size = 8, radius = 2, variant = BitVariant, random_state = 0\<rparr>"

text \<open>A parser for the examples: it knows the two molecules above, and no other string.\<close>

definition example_MolFromSmiles :: "string \<Rightarrow> Mol option" where
  "example_MolFromSmiles s =
     (if s = ''CC'' then Some ethane else if s = ''C1CCC1'' then Some cyclobutane else None)"

text \<open>A subclass method for the examples: the row of a molecule is its MAP fingerprint under
  the given configuration; an element that is not a molecule raises.\<close>

definition example_calculate ::
  "MAPFingerprint \<Rightarrow> pyobj list \<Rightarrow> py_error + nat list list" where
  "example_calculate cfg X =
     traverse (\<lambda>x. case x of
                      MolObj mol \<Rightarrow> calculate_single_mol_fingerprint example_library cfg mol
                    | _ \<Rightarrow> Inl ValueError) X"

definition example_transformer :: "nat \<Rightarrow> nat list FingerprintTransformer" where
  "example_transformer n =
     \<lparr>n_jobs = n, calculate_fingerprint = example_calculate bit_config\<rparr>"

section \<open>Lemmas\<close>

lemma traverse_Inr:
  "(\<And>x. x \<in> set xs \<Longrightarrow> f x = Inr (g x)) \<Longrightarrow> traverse f xs = Inr (map g xs)"
  by (induction xs) simp_all

lemma get_atom_envs_fold:
  "fold (\<lambda>idx atoms_env. atoms_env (idx := atoms_env idx @ h idx)) [0 ..< n] (\<lambda>idx. []) idx =
     (if idx < n then h idx else [])"
  by (induction n) auto

lemma get_atom_envs_eq:
  "get_atom_envs self mol idx =
     (if idx < GetNumAtoms mol then map (find_neighborhood mol idx) [1 ..< radius self + 1] else [])"
  unfolding get_atom_envs_def by (rule get_atom_envs_fold)

lemma length_get_atom_envs:
  "idx < GetNumAtoms mol \<Longrightarrow> length (get_atom_envs self mol idx) = radius self"
  by (simp add: get_atom_envs_eq)

lemma le_fold_max: "x \<in> set bits \<Longrightarrow> x \<le> fold max bits (0::nat)"
proof -
  assume "x \<in> set bits"
  then have "x \<le> Max (set (0 # bits))" by (intro Max_ge) simp_all
  then show ?thesis by (simp only: Max.set_eq_fold)
qed

lemma fold_max_less: "(\<And>x. x \<in> set bits \<Longrightarrow> x < n) \<Longrightarrow> m < n \<Longrightarrow> fold max bits (m::nat) < n"
  by (induction bits arbitrary: m) (simp_all add: max_def)

lemma sum_list_count_list_upt:
  "set bits \<subseteq> {0 ..< L} \<Longrightarrow> sum_list (map (count_list bits) [0 ..< L]) = length bits"
  by (simp add: interv_sum_list_conv_sum_set_nat sum_count_set)

lemma sum_list_np_bincount: "sum_list (np_bincount bits minlength) = length bits"
proof -
  have "set bits \<subseteq> {0 ..< max minlength (case bits of [] \<Rightarrow> 0 | _ \<Rightarrow> Suc (fold max bits 0))}"
  proof
    fix x assume x: "x \<in> set bits"
    then have "x \<le> fold max bits 0" by (rule le_fold_max)
    moreover from x have "bits \<noteq> []" by auto
    ultimately show "x \<in> {0 ..< max minlength (case bits of [] \<Rightarrow> 0 | _ \<Rightarrow> Suc (fold max bits 0))}"
      by (cases bits) (simp_all add: less_max_iff_disj less_Suc_eq_le)
  qed
  then show ?thesis
    unfolding np_bincount_def by (rule sum_list_count_list_upt)
qed

lemma length_np_bincount:
  "(\<And>x. x \<in> set bits \<Longrightarrow> x < minlength) \<Longrightarrow> length (np_bincount bits minlength) = minlength"
proof (cases bits)
  case Nil
  then show ?thesis by (simp add: np_bincount_def)
next
  case (Cons b bs)
  assume h: "\<And>x. x \<in> set bits \<Longrightarrow> x < minlength"
  have "0 < minlength" using h [of b] Cons by simp
  then have "fold max bits 0 < minlength" using h by (intro fold_max_less)
  then show ?thesis using Cons by (simp add: np_bincount_def max_def)
qed

lemma radius_loop_eq:
  "(\<And>i. i \<in> set ixs \<Longrightarrow> i < length env_a \<and> i < length env_b) \<Longrightarrow>
   radius_loop self d env_a env_b ixs st =
     Inr (if variant self = CountVariant
          then (fst st, fold (\<lambda>k dct. dict_incr dct k)
                             (concat (map (step_occurrences d env_a env_b) ixs)) (snd st))
          else (fst st @ concat (map (step_occurrences d env_a env_b) ixs), snd st))"
proof (induction ixs arbitrary: st)
  case Nil
  show ?case by simp
next
  case (Cons i ixs)
  have i: "i < length env_a" "i < length env_b" using Cons.prems [of i] by simp_all
  have rest: "\<And>k. k \<in> set ixs \<Longrightarrow> k < length env_a \<and> k < length env_b"
    using Cons.prems by simp
  have h: "step_occurrences d env_a env_b i =
      (if truthy (env_a ! i) \<and> truthy (env_b ! i)
       then [shingle_str (the (env_a ! i)) d (the (env_b ! i))] else [])"
    by (simp add: step_occurrences_def)
  show ?case
    using i by (simp add: radius_step_def h Let_def Cons.IH [OF rest])
qed

lemma pair_loop_eq:
  "(\<And>i j. (i, j) \<in> set ps \<Longrightarrow>
      radius self \<le> length (atoms_envs i) \<and> radius self \<le> length (atoms_envs j)) \<Longrightarrow>
   pair_loop self mol atoms_envs ps st =
     Inr (if variant self = CountVariant
          then (fst st, fold (\<lambda>k dct. dict_incr dct k)
                             (pair_occurrences self mol atoms_envs ps) (snd st))
          else (fst st @ pair_occurrences self mol atoms_envs ps, snd st))"
proof (induction ps arbitrary: st)
  case Nil
  show ?case by (simp add: pair_occurrences_def)
next
  case (Cons p ps)
  obtain i j where p: "p = (i, j)" by (cases p)
  have len: "radius self \<le> length (atoms_envs i)" "radius self \<le> length (atoms_envs j)"
    using Cons.prems [of i j] p by simp_all
  have rest: "\<And>i j. (i, j) \<in> set ps \<Longrightarrow>
      radius self \<le> length (atoms_envs i) \<and> radius self \<le> length (atoms_envs j)"
    by (rule Cons.prems) simp
  have inner: "\<And>k. k \<in> set [0 ..< radius self] \<Longrightarrow>
      k < length (atoms_envs i) \<and> k < length (atoms_envs j)"
    using len by simp
  have rl: "\<And>d. radius_loop self d (atoms_envs i) (atoms_envs j) [0 ..< radius self] st =
     Inr (if variant self = CountVariant
          then (fst st, fold (\<lambda>k dct. dict_incr dct k)
                  (concat (map (step_occurrences d (atoms_envs i) (atoms_envs j))
                     [0 ..< radius self])) (snd st))
          else (fst st @ concat (map (step_occurrences d (atoms_envs i) (atoms_envs j))
                     [0 ..< radius self]), snd st))"
    by (rule radius_loop_eq) (rule inner)
  show ?case
    by (simp add: p Let_def rl Cons.IH [OF rest] pair_occurrences_def)
qed

lemma combinations2_iff: "(i, j) \<in> set (combinations2 n) \<longleftrightarrow> i < j \<and> j < n"
  by (force simp: combinations2_def)

lemma distinct_combinations2: "distinct (combinations2 n)"
  unfolding combinations2_def
  by (rule distinct_concat)
     (auto simp: distinct_map inj_on_def dest!: arg_cong [where f = length])

lemma get_atom_pair_shingles_eq:
  assumes "\<And>idx. idx < GetNumAtoms mol \<Longrightarrow> radius self \<le> length (atoms_envs idx)"
  shows "get_atom_pair_shingles self mol atoms_envs =
     Inr (map encode
       (if variant self = CountVariant
        then map (\<lambda>(shingle, shingle_count). shingle @ ''|'' @ py_str (int shingle_count))
               (fold (\<lambda>k dct. dict_incr dct k)
                  (pair_occurrences self mol atoms_envs (combinations2 (GetNumAtoms mol))) [])
        else pair_occurrences self mol atoms_envs (combinations2 (GetNumAtoms mol))))"
proof -
  have "\<And>i j. (i, j) \<in> set (combinations2 (GetNumAtoms mol)) \<Longrightarrow>
      radius self \<le> length (atoms_envs i) \<and> radius self \<le> length (atoms_envs j)"
    using assms by (auto simp: combinations2_iff)
  then show ?thesis
    by (simp add: get_atom_pair_shingles_def pair_loop_eq)
qed

lemma map_fst_dict_incr:
  "map fst (dict_incr d k) = (if k \<in> fst ` set d then map fst d else map fst d @ [k])"
  by (induction d k rule: dict_incr.induct) auto

lemma keys_dict_incr: "fst ` set (dict_incr d k) = insert k (fst ` set d)"
  by (induction d k rule: dict_incr.induct) auto

lemma dict_fold_keys:
  "distinct (map fst d) \<Longrightarrow>
   distinct (map fst (fold (\<lambda>k dct. dict_incr dct k) ks d)) \<and>
   fst ` set (fold (\<lambda>k dct. dict_incr dct k) ks d) = fst ` set d \<union> set ks"
proof (induction ks arbitrary: d)
  case Nil
  then show ?case by simp
next
  case (Cons k ks)
  have "distinct (map fst (dict_incr d k))"
    using Cons.prems by (simp add: map_fst_dict_incr)
  from Cons.IH [OF this] show ?case
    by (simp add: keys_dict_incr)
qed

lemma length_dict_fold:
  "length (fold (\<lambda>k dct. dict_incr dct k) ks []) = card (set ks)"
proof -
  have d: "distinct (map fst (fold (\<lambda>k dct. dict_incr dct k) ks []))"
    and s: "fst ` set (fold (\<lambda>k dct. dict_incr dct k) ks []) = set ks"
    using dict_fold_keys [of "[]" ks] by simp_all
  have "length (fold (\<lambda>k dct. dict_incr dct k) ks []) =
        length (map fst (fold (\<lambda>k dct. dict_incr dct k) ks []))" by simp
  also have "\<dots> = card (set (map fst (fold (\<lambda>k dct. dict_incr dct k) ks [])))"
    using d by (rule distinct_card [symmetric])
  finally show ?thesis using s by simp
qed

lemma shingle_str_min_max: "shingle_str a d b = min a b @ ''|'' @ d @ ''|'' @ max a b"
  by (auto simp: shingle_str_def sorted2_def Let_def min_def max_def)

lemma shingle_str_commute: "shingle_str a d b = shingle_str b d a"
  by (simp add: shingle_str_min_max min.commute max.commute)

lemma step_occurrences_spec:
  assumes "r < length (envs i)" "r < length (envs j)"
    and "Some [] \<notin> set (envs i)" "Some [] \<notin> set (envs j)"
  shows "step_occurrences (py_str (py_int (GetDistanceMatrix mol i j))) (envs i) (envs j) r =
         spec_shingles_at mol envs i j (Suc r)"
proof -
  have "envs i ! r \<noteq> Some []" "envs j ! r \<noteq> Some []"
    using assms by (metis nth_mem)+
  then show ?thesis
    by (cases "envs i ! r"; cases "envs j ! r")
       (simp_all add: step_occurrences_def spec_shingles_at_def spec_shingle_def truthy_def
          shingle_str_min_max)
qed

lemma envs_okD:
  "envs_ok self mol envs \<Longrightarrow> idx < GetNumAtoms mol \<Longrightarrow>
   length (envs idx) = radius self \<and> Some [] \<notin> set (envs idx)"
  by (simp add: envs_ok_def list_all_iff)

lemma pair_occurrences_spec:
  assumes ok: "envs_ok self mol envs"
  shows "pair_occurrences self mol envs (combinations2 (GetNumAtoms mol)) =
         spec_occurrences self mol envs"
proof -
  have shift: "\<And>f. map f [1 ..< radius self + 1] = map (\<lambda>r. f (Suc r)) [0 ..< radius self]"
    by (simp add: map_Suc_upt [symmetric] del: upt_Suc)
  have "\<And>p. p \<in> set (combinations2 (GetNumAtoms mol)) \<Longrightarrow>
      (case p of (idx_1, idx_2) \<Rightarrow>
         concat (map (step_occurrences (py_str (py_int (GetDistanceMatrix mol idx_1 idx_2)))
                        (envs idx_1) (envs idx_2)) [0 ..< radius self])) =
      (case p of (i, j) \<Rightarrow>
         concat (map (\<lambda>r. spec_shingles_at mol envs i j (Suc r)) [0 ..< radius self]))"
  proof -
    fix p assume p: "p \<in> set (combinations2 (GetNumAtoms mol))"
    obtain i j where ij: "p = (i, j)" by (cases p)
    with p have "i < GetNumAtoms mol" "j < GetNumAtoms mol"
      by (auto simp: combinations2_iff)
    then have i: "length (envs i) = radius self" "Some [] \<notin> set (envs i)"
      and j: "length (envs j) = radius self" "Some [] \<notin> set (envs j)"
      using envs_okD [OF ok] by simp_all
    have m: "map (step_occurrences (py_str (py_int (GetDistanceMatrix mol i j))) (envs i) (envs j))
            [0 ..< radius self] =
          map (\<lambda>r. spec_shingles_at mol envs i j (Suc r)) [0 ..< radius self]"
      by (rule map_cong [OF refl]) (simp add: step_occurrences_spec i j)
    show "(case p of (idx_1, idx_2) \<Rightarrow>
         concat (map (step_occurrences (py_str (py_int (GetDistanceMatrix mol idx_1 idx_2)))
                        (envs idx_1) (envs idx_2)) [0 ..< radius self])) =
      (case p of (i, j) \<Rightarrow>
         concat (map (\<lambda>r. spec_shingles_at mol envs i j (Suc r)) [0 ..< radius self]))"
      by (simp only: ij prod.case m)
  qed
  then show ?thesis
    unfolding pair_occurrences_def spec_occurrences_def shift
    by (intro arg_cong [where f = concat] map_cong refl)
qed

lemma envs_ok_get_atom_envs:
  "smiles_nonempty mol \<Longrightarrow> envs_ok self mol (get_atom_envs self mol)"
  by (auto simp: envs_ok_def list_all_iff get_atom_envs_eq find_neighborhood_def smiles_nonempty_def
      Let_def split: option.splits) metis+

lemma unat_byte_less: "unat (b :: byte) < 256"
  using unsigned_less [of b, where ?'a = nat] by simp

lemma le_value_less: "le_value bs < 256 ^ length bs"
proof (induction bs)
  case Nil
  show ?case by (simp add: le_value_def)
next
  case (Cons b bs)
  have "unat b + 256 * le_value bs < 256 + 256 * le_value bs"
    using unat_byte_less [of b] by simp
  also have "\<dots> = 256 * Suc (le_value bs)" by simp
  also have "\<dots> \<le> 256 * 256 ^ length bs"
    using Cons.IH by (intro mult_le_mono2) simp
  finally show ?case by (simp add: le_value_def)
qed

lemma le_value_take4:
  assumes "4 \<le> length d"
  shows "le_value (take 4 d) = spec_le32 d"
proof -
  obtain a d1 where d: "d = a # d1" and l1: "3 \<le> length d1"
    using assms by (cases d) auto
  obtain b d2 where d1: "d1 = b # d2" and l2: "2 \<le> length d2"
    using l1 by (cases d1) auto
  obtain c d3 where d2: "d2 = c # d3" and l3: "1 \<le> length d3"
    using l2 by (cases d2) auto
  obtain e d4 where d3: "d3 = e # d4"
    using l3 by (cases d3) auto
  show ?thesis
    by (simp add: d d1 d2 d3 le_value_def spec_le32_def)
qed

lemma spec_le32_less: "4 \<le> length d \<Longrightarrow> spec_le32 d < 2 ^ 32"
  using le_value_less [of "take 4 d"] by (simp add: le_value_take4)

lemma get_hash_eq:
  "sha1_digest_size lib \<Longrightarrow> get_hash lib shingle = Inr (spec_le32 (hashlib_sha1 lib shingle))"
  by (simp add: get_hash_def struct_unpack_I_def sha1_digest_size_def le_value_take4)

lemma fold_bits_eq:
  assumes "sha1_digest_size lib" "0 < fp_size self"
  shows "fold_bits lib self shingles = Inr (map (spec_bucket_index lib (fp_size self)) shingles)"
proof -
  have h: "traverse (get_hash lib) shingles =
           Inr (map (\<lambda>s. spec_le32 (hashlib_sha1 lib s)) shingles)"
    by (rule traverse_Inr) (rule get_hash_eq [OF assms(1)])
  have m: "\<And>hs. traverse (\<lambda>hash_val. py_mod hash_val (fp_size self)) hs =
           Inr (map (\<lambda>h. h mod fp_size self) hs)"
    using assms(2) by (intro traverse_Inr) (simp add: py_mod_def)
  show ?thesis
    by (simp add: fold_bits_def h m spec_bucket_index_def o_def)
qed

lemma length_minhash_digest: "length (minhash_digest lib n seed shingles) = n"
  by (simp add: minhash_digest_def)

lemma encode_shingles_length:
  assumes "sha1_digest_size lib" "0 < fp_size self"
  shows "\<exists>fp. encode_shingles lib self shingles = Inr fp \<and> length fp = fp_size self"
proof (cases "variant self = RawHashes")
  case True
  then show ?thesis by (simp add: encode_shingles_def length_minhash_digest)
next
  case False
  have "length (np_bincount (map (spec_bucket_index lib (fp_size self)) shingles) (fp_size self))
        = fp_size self"
    using assms(2) by (intro length_np_bincount) (auto simp: spec_bucket_index_def)
  with False show ?thesis
    by (simp add: encode_shingles_def fold_bits_eq [OF assms])
qed

lemma get_atom_pair_shingles_envs:
  "\<exists>shingles. get_atom_pair_shingles self mol (get_atom_envs self mol) = Inr shingles"
  by (subst get_atom_pair_shingles_eq) (simp_all add: length_get_atom_envs)

lemma pair_occurrences_radius_0:
  "radius self = 0 \<Longrightarrow> pair_occurrences self mol envs ps = []"
  by (simp add: pair_occurrences_def split_def)

lemma map_count_list_Nil: "map (count_list []) ks = replicate (length ks) 0"
  by (induction ks) simp_all

lemma np_bincount_Nil: "np_bincount [] n = replicate n 0"
  by (simp add: np_bincount_def map_count_list_Nil)

lemma radius_step_commute:
  "radius_step self d env_a env_b i st = radius_step self d env_b env_a i st"
  by (auto simp: radius_step_def Let_def shingle_str_commute)

lemma radius_loop_commute:
  "radius_loop self d env_a env_b ixs st = radius_loop self d env_b env_a ixs st"
  by (induction ixs arbitrary: st) (simp_all add: radius_step_commute split: sum.splits)

lemma count_fingerprint_sum:
  assumes "variant self = CountVariant" and "sha1_digest_size lib" and "0 < fp_size self"
    and "smiles_nonempty mol"
  shows "\<exists>fp. calculate_single_mol_fingerprint lib self mol = Inr fp \<and>
              sum_list fp = card (set (spec_occurrences self mol (get_atom_envs self mol)))"
proof -
  let ?envs = "get_atom_envs self mol"
  let ?occ = "pair_occurrences self mol ?envs (combinations2 (GetNumAtoms mol))"
  have ok: "envs_ok self mol ?envs" using assms(4) by (rule envs_ok_get_atom_envs)
  have "\<And>idx. idx < GetNumAtoms mol \<Longrightarrow> radius self \<le> length (?envs idx)"
    by (simp add: length_get_atom_envs)
  then have s: "get_atom_pair_shingles self mol ?envs =
      Inr (map encode
        (map (\<lambda>(shingle, shingle_count). shingle @ ''|'' @ py_str (int shingle_count))
           (fold (\<lambda>k dct. dict_incr dct k) ?occ [])))"
    using assms(1) by (simp add: get_atom_pair_shingles_eq)
  show ?thesis
    using assms(1)
    by (simp add: calculate_single_mol_fingerprint_def s encode_shingles_def
        fold_bits_eq [OF assms(2,3)] sum_list_np_bincount length_dict_fold
        pair_occurrences_spec [OF ok])
qed

lemma sha1_digest_size_example: "sha1_digest_size example_library"
  by (simp add: sha1_digest_size_def example_library_def known_sha1_def)

lemma smiles_nonempty_cyclobutane: "smiles_nonempty cyclobutane"
  by (simp add: smiles_nonempty_def cyclobutane_def)

lemma combinations2_4:
  "combinations2 4 = [(0, Suc 0), (0, 2), (0, 3), (Suc 0, 2), (Suc 0, 3), (2, 3)]"
  by (simp add: combinations2_def upt_conv_Cons)

lemma py_str_vals: "py_str 1 = ''1''" "py_str 2 = ''2''"
  by (simp_all add: py_str_def str_nat.simps digit_char_def)

lemma py_int_vals: "py_int 1 = 1" "py_int 2 = 2"
  by (simp_all add: py_int_def)

lemma cyclobutane_distances:
  "GetDistanceMatrix cyclobutane (Suc 0) 2 = 1" "GetDistanceMatrix cyclobutane (Suc 0) 3 = 2"
  "GetDistanceMatrix cyclobutane 2 3 = 1"
  by (simp_all add: cyclobutane_def)

lemma cyclobutane_envs:
  assumes "radius self = 2"
  shows "get_atom_envs self cyclobutane 0 = [None, None]"
    and "get_atom_envs self cyclobutane (Suc 0) = [Some ''C(C)C'', Some ''CCC'']"
    and "get_atom_envs self cyclobutane 2 = [Some ''C1CCC1'', Some ''C1CCC1'']"
    and "get_atom_envs self cyclobutane 3 = [Some ''C1CCC1'', Some ''C1CCC1'']"
  using assms
  by (simp_all add: get_atom_envs_eq cyclobutane_def find_neighborhood_def upt_conv_Cons)

lemma cyclobutane_occurrences:
  assumes "radius self = 2"
  shows "pair_occurrences self cyclobutane (get_atom_envs self cyclobutane) (combinations2 4)
         = [''C(C)C|1|C1CCC1'', ''C1CCC1|1|CCC'', ''C(C)C|2|C1CCC1'', ''C1CCC1|2|CCC'',
            ''C1CCC1|1|C1CCC1'', ''C1CCC1|1|C1CCC1'']"
  by (simp add: pair_occurrences_def combinations2_4 cyclobutane_envs [OF assms] assms
      cyclobutane_distances step_occurrences_def truthy_def shingle_str_def sorted2_def
      less_char_def py_str_vals py_int_vals upt_conv_Cons)

lemma cyclobutane_spec_occurrences:
  assumes "radius self = 2"
  shows "spec_occurrences self cyclobutane (get_atom_envs self cyclobutane)
         = [''C(C)C|1|C1CCC1'', ''C1CCC1|1|CCC'', ''C(C)C|2|C1CCC1'', ''C1CCC1|2|CCC'',
            ''C1CCC1|1|C1CCC1'', ''C1CCC1|1|C1CCC1'']"
proof -
  have n: "GetNumAtoms cyclobutane = 4" by (simp add: cyclobutane_def)
  have "envs_ok self cyclobutane (get_atom_envs self cyclobutane)"
    by (rule envs_ok_get_atom_envs) (rule smiles_nonempty_cyclobutane)
  from pair_occurrences_spec [OF this, unfolded n cyclobutane_occurrences [OF assms], symmetric]
  show ?thesis .
qed

lemma cyclobutane_dict:
  "fold (\<lambda>k dct. dict_incr dct k)
     [''C(C)C|1|C1CCC1'', ''C1CCC1|1|CCC'', ''C(C)C|2|C1CCC1'', ''C1CCC1|2|CCC'',
      ''C1CCC1|1|C1CCC1'', ''C1CCC1|1|C1CCC1''] []
   = [(''C(C)C|1|C1CCC1'', 1), (''C1CCC1|1|CCC'', 1), (''C(C)C|2|C1CCC1'', 1),
      (''C1CCC1|2|CCC'', 1), (''C1CCC1|1|C1CCC1'', 2)]"
  by simp

lemma cyclobutane_count_shingles:
  "get_atom_pair_shingles count_config cyclobutane (get_atom_envs count_config cyclobutane) =
     Inr [encode ''C(C)C|1|C1CCC1|1'', encode ''C1CCC1|1|CCC|1'', encode ''C(C)C|2|C1CCC1|1'',
          encode ''C1CCC1|2|CCC|1'', encode ''C1CCC1|1|C1CCC1|2'']"
proof -
  have n: "GetNumAtoms cyclobutane = 4" by (simp add: cyclobutane_def)
  have v: "variant count_config = CountVariant" and r: "radius count_config = 2"
    by (simp_all add: count_config_def)
  show ?thesis
    by (subst get_atom_pair_shingles_eq)
       (simp_all add: length_get_atom_envs n v cyclobutane_occurrences [OF r] cyclobutane_dict
          py_str_vals)
qed

lemma cyclobutane_count_bits:
  "fold_bits example_library count_config
     [encode ''C(C)C|1|C1CCC1|1'', encode ''C1CCC1|1|CCC|1'', encode ''C(C)C|2|C1CCC1|1'',
      encode ''C1CCC1|2|CCC|1'', encode ''C1CCC1|1|C1CCC1|2'']
     = Inr [2, 2, 2, 4, 4]"
proof -
  have v: "0 < fp_size count_config" "fp_size count_config = 8"
    by (simp_all add: count_config_def)
  have k: "hashlib_sha1 example_library (encode ''C(C)C|1|C1CCC1|1'') =
      [170, 85, 138, 110, 6, 44, 116, 174, 246, 174, 106, 190, 59, 220, 165, 65, 18, 178, 227, 230]"
     "hashlib_sha1 example_library (encode ''C1CCC1|1|CCC|1'') =
      [106, 33, 202, 178, 29, 172, 231, 99, 140, 198, 116, 251, 196, 240, 219, 59, 50, 144, 108, 5]"
     "hashlib_sha1 example_library (encode ''C(C)C|2|C1CCC1|1'') =
      [66, 213, 254, 86, 141, 192, 109, 67, 203, 43, 163, 20, 47, 1, 192, 236, 109, 221, 116, 118]"
     "hashlib_sha1 example_library (encode ''C1CCC1|2|CCC|1'') =
      [12, 244, 88, 117, 36, 95, 172, 254, 173, 213, 88, 179, 239, 118, 122, 192, 109, 65, 129, 239]"
     "hashlib_sha1 example_library (encode ''C1CCC1|1|C1CCC1|2'') =
      [60, 254, 177, 60, 181, 52, 46, 184, 8, 13, 213, 198, 14, 86, 81, 177, 58, 198, 42, 231]"
    by (simp_all add: example_library_def known_sha1_def encode_def)
  show ?thesis
    by (simp add: fold_bits_eq [OF sha1_digest_size_example v(1)] v(2) spec_bucket_index_def
        spec_le32_def k)
qed

lemma cyclobutane_count_fingerprint:
  "calculate_single_mol_fingerprint example_library count_config cyclobutane
     = Inr [0, 0, 3, 0, 2, 0, 0, 0]"
proof -
  have v: "variant count_config = CountVariant" "fp_size count_config = 8"
    by (simp_all add: count_config_def)
  show ?thesis
    by (simp add: calculate_single_mol_fingerprint_def cyclobutane_count_shingles
        encode_shingles_def v cyclobutane_count_bits np_bincount_def upt_conv_Cons)
qed

lemma find_neighborhood_None_iff:
  "find_neighborhood mol atom_idx n_radius = None \<longleftrightarrow> extraction_absent mol atom_idx n_radius"
  by (simp add: find_neighborhood_def extraction_absent_def Let_def split: option.splits)

lemma get_atom_envs_Suc:
  assumes "radius self = Suc R" and "idx < GetNumAtoms mol"
  shows "get_atom_envs self mol idx =
         get_atom_envs (self\<lparr>radius := R\<rparr>) mol idx @ [find_neighborhood mol idx (Suc R)]"
  using assms by (simp add: get_atom_envs_eq)

lemma step_occurrences_append:
  "r < length env_a \<Longrightarrow> r < length env_b \<Longrightarrow>
   step_occurrences d (env_a @ xs) (env_b @ ys) r = step_occurrences d env_a env_b r"
  by (simp add: step_occurrences_def nth_append)

lemma step_occurrences_last_None:
  "step_occurrences d (env_a @ [None]) env_b (length env_a) = []"
  by (simp add: step_occurrences_def truthy_def)

lemma pair_occurrences_drop_radius:
  assumes r: "radius self = Suc R"
    and absent: "list_all (\<lambda>idx. extraction_absent mol idx (Suc R)) [0 ..< GetNumAtoms mol]"
    and ps: "\<And>i j. (i, j) \<in> set ps \<Longrightarrow> i < GetNumAtoms mol \<and> j < GetNumAtoms mol"
  shows "pair_occurrences self mol (get_atom_envs self mol) ps =
         pair_occurrences (self\<lparr>radius := R\<rparr>) mol (get_atom_envs (self\<lparr>radius := R\<rparr>) mol) ps"
proof -
  let ?self' = "self\<lparr>radius := R\<rparr>"
  have envs: "\<And>idx. idx < GetNumAtoms mol \<Longrightarrow>
      get_atom_envs self mol idx = get_atom_envs ?self' mol idx @ [None]"
    using absent
    by (simp add: get_atom_envs_Suc [OF r] find_neighborhood_None_iff [symmetric] list_all_iff)
  have len: "\<And>idx. idx < GetNumAtoms mol \<Longrightarrow> length (get_atom_envs ?self' mol idx) = R"
    by (simp add: length_get_atom_envs)
  have "\<And>p. p \<in> set ps \<Longrightarrow>
     (case p of (idx_1, idx_2) \<Rightarrow>
        concat (map (step_occurrences (py_str (py_int (GetDistanceMatrix mol idx_1 idx_2)))
                       (get_atom_envs self mol idx_1) (get_atom_envs self mol idx_2))
                    [0 ..< radius self])) =
     (case p of (idx_1, idx_2) \<Rightarrow>
        concat (map (step_occurrences (py_str (py_int (GetDistanceMatrix mol idx_1 idx_2)))
                       (get_atom_envs ?self' mol idx_1) (get_atom_envs ?self' mol idx_2))
                    [0 ..< radius ?self']))"
  proof -
    fix p assume p: "p \<in> set ps"
    obtain i j where ij: "p = (i, j)" by (cases p)
    have lt: "i < GetNumAtoms mol" "j < GetNumAtoms mol" using ps p ij by auto
    let ?d = "py_str (py_int (GetDistanceMatrix mol i j))"
    let ?a = "get_atom_envs ?self' mol i" and ?b = "get_atom_envs ?self' mol j"
    have m: "map (step_occurrences ?d (?a @ [None]) (?b @ [None])) [0 ..< R] =
             map (step_occurrences ?d ?a ?b) [0 ..< R]"
      by (rule map_cong [OF refl]) (simp add: step_occurrences_append len lt)
    have l: "step_occurrences ?d (?a @ [None]) (?b @ [None]) R = []"
      using step_occurrences_last_None [of ?d ?a "?b @ [None]"] by (simp add: len lt)
    show "(case p of (idx_1, idx_2) \<Rightarrow>
        concat (map (step_occurrences (py_str (py_int (GetDistanceMatrix mol idx_1 idx_2)))
                       (get_atom_envs self mol idx_1) (get_atom_envs self mol idx_2))
                    [0 ..< radius self])) =
     (case p of (idx_1, idx_2) \<Rightarrow>
        concat (map (step_occurrences (py_str (py_int (GetDistanceMatrix mol idx_1 idx_2)))
                       (get_atom_envs ?self' mol idx_1) (get_atom_envs ?self' mol idx_2))
                    [0 ..< radius ?self']))"
      by (simp add: ij r envs lt m l)
  qed
  then show ?thesis
    unfolding pair_occurrences_def
    by (intro arg_cong [where f = concat] map_cong refl)
qed

lemma validate_loop_frame:
  "length (fst (validate_loop p i X)) = length X \<and>
   (\<forall>k < length X.
      fst (validate_loop p i X) ! k = X ! k \<or>
      (i \<le> k \<and> is_str (X ! k) \<and> fst (validate_loop p i X) ! k = parsed p (X ! k)))"
proof (induction p i X rule: validate_loop.induct)
  case (1 p i X)
  show ?case
  proof (cases "length X \<le> i")
    case True
    then show ?thesis by (simp add: validate_loop.simps [of p i X])
  next
    case False
    show ?thesis
    proof (cases "\<not> is_Mol (X ! i) \<and> \<not> is_str (X ! i)")
      case True
      with False show ?thesis by (simp add: validate_loop.simps [of p i X])
    next
      case valid: False
      let ?X' = "if is_str (X ! i) then X [i := parsed p (X ! i)] else X"
      have step: "validate_loop p i X = validate_loop p (Suc i) ?X'"
        using False valid by (subst validate_loop.simps) (auto simp: Let_def)
      have IH: "length (fst (validate_loop p (Suc i) ?X')) = length ?X' \<and>
         (\<forall>k < length ?X'.
            fst (validate_loop p (Suc i) ?X') ! k = ?X' ! k \<or>
            (Suc i \<le> k \<and> is_str (?X' ! k) \<and>
             fst (validate_loop p (Suc i) ?X') ! k = parsed p (?X' ! k)))"
        using "1.IH" [OF False refl valid] .
      have len: "length ?X' = length X" by simp
      show ?thesis
      proof (intro conjI allI impI)
        show "length (fst (validate_loop p i X)) = length X"
          using IH len by (simp add: step)
      next
        fix k assume k: "k < length X"
        then have "fst (validate_loop p (Suc i) ?X') ! k = ?X' ! k \<or>
            (Suc i \<le> k \<and> is_str (?X' ! k) \<and>
             fst (validate_loop p (Suc i) ?X') ! k = parsed p (?X' ! k))"
          using IH len by simp
        then show "fst (validate_loop p i X) ! k = X ! k \<or>
           (i \<le> k \<and> is_str (X ! k) \<and> fst (validate_loop p i X) ! k = parsed p (X ! k))"
          using k False by (cases "k = i") (auto simp: step split: if_splits)
      qed
    qed
  qed
qed

lemma validate_loop_error:
  "snd (validate_loop p i X) =
     (if \<exists>k. i \<le> k \<and> k < length X \<and> \<not> is_Mol (X ! k) \<and> \<not> is_str (X ! k)
      then Some ValueError else None)"
proof (induction p i X rule: validate_loop.induct)
  case (1 p i X)
  show ?case
  proof (cases "length X \<le> i")
    case True
    then show ?thesis by (auto simp: validate_loop.simps [of p i X])
  next
    case False
    show ?thesis
    proof (cases "\<not> is_Mol (X ! i) \<and> \<not> is_str (X ! i)")
      case True
      with False have "\<exists>k. i \<le> k \<and> k < length X \<and> \<not> is_Mol (X ! k) \<and> \<not> is_str (X ! k)"
        by (intro exI [of _ i]) simp
      with True False show ?thesis by (simp add: validate_loop.simps [of p i X])
    next
      case valid: False
      let ?X' = "if is_str (X ! i) then X [i := parsed p (X ! i)] else X"
      have step: "validate_loop p i X = validate_loop p (Suc i) ?X'"
        using False valid by (subst validate_loop.simps) (auto simp: Let_def)
      have IH: "snd (validate_loop p (Suc i) ?X') =
         (if \<exists>k. Suc i \<le> k \<and> k < length ?X' \<and> \<not> is_Mol (?X' ! k) \<and> \<not> is_str (?X' ! k)
          then Some ValueError else None)"
        using "1.IH" [OF False refl valid] .
      have same: "\<And>k. Suc i \<le> k \<Longrightarrow> ?X' ! k = X ! k" by simp
      have "(\<exists>k. Suc i \<le> k \<and> k < length ?X' \<and> \<not> is_Mol (?X' ! k) \<and> \<not> is_str (?X' ! k)) \<longleftrightarrow>
            (\<exists>k. i \<le> k \<and> k < length X \<and> \<not> is_Mol (X ! k) \<and> \<not> is_str (X ! k))"
      proof
        assume "\<exists>k. Suc i \<le> k \<and> k < length ?X' \<and> \<not> is_Mol (?X' ! k) \<and> \<not> is_str (?X' ! k)"
        then obtain k where "Suc i \<le> k" "k < length ?X'" "\<not> is_Mol (?X' ! k)" "\<not> is_str (?X' ! k)"
          by blast
        then have "i \<le> k \<and> k < length X \<and> \<not> is_Mol (X ! k) \<and> \<not> is_str (X ! k)"
          using same [of k] by (simp split: if_splits)
        then show "\<exists>k. i \<le> k \<and> k < length X \<and> \<not> is_Mol (X ! k) \<and> \<not> is_str (X ! k)" ..
      next
        assume "\<exists>k. i \<le> k \<and> k < length X \<and> \<not> is_Mol (X ! k) \<and> \<not> is_str (X ! k)"
        then obtain k where k: "i \<le> k" "k < length X" "\<not> is_Mol (X ! k)" "\<not> is_str (X ! k)"
          by blast
        with valid have "k \<noteq> i" by auto
        with k have "Suc i \<le> k \<and> k < length ?X' \<and> \<not> is_Mol (?X' ! k) \<and> \<not> is_str (?X' ! k)"
          by (simp split: if_splits)
        then show "\<exists>k. Suc i \<le> k \<and> k < length ?X' \<and> \<not> is_Mol (?X' ! k) \<and> \<not> is_str (?X' ! k)" ..
      qed
      then show ?thesis by (simp only: step IH)
    qed
  qed
qed

lemma validate_input_error:
  "snd (validate_input p X) =
     (if \<exists>x \<in> set X. \<not> is_Mol x \<and> \<not> is_str x then Some ValueError else None)"
proof -
  have "(\<exists>k. 0 \<le> k \<and> k < length X \<and> \<not> is_Mol (X ! k) \<and> \<not> is_str (X ! k)) \<longleftrightarrow>
        (\<exists>x \<in> set X. \<not> is_Mol x \<and> \<not> is_str x)"
    by (metis in_set_conv_nth le0)
  then show ?thesis
    by (simp only: validate_input_def validate_loop_error)
qed

lemma fst_transform: "fst (transform self p X) = fst (validate_input p X)"
  by (simp add: transform_def Let_def split: prod.splits option.splits sum.splits)

lemma concat_sub_batches_take:
  "concat (map (\<lambda>k. take b (drop (k * b) X)) [0 ..< m]) = take (m * b) X"
proof (induction m)
  case 0
  show ?case by simp
next
  case (Suc m)
  have "take (Suc m * b) X = take (m * b + b) X" by (simp add: add.commute)
  also have "\<dots> = take (m * b) X @ take b (drop (m * b) X)" by (rule take_add)
  finally show ?case using Suc.IH by simp
qed

lemma concat_sub_batches: "0 < b \<Longrightarrow> concat (sub_batches X b) = X"
proof -
  assume b: "0 < b"
  let ?n = "length X"
  have "(?n + b - 1) div b * b + (?n + b - 1) mod b = ?n + b - 1" by simp
  moreover have "(?n + b - 1) mod b < b" using b by simp
  ultimately have "?n \<le> (?n + b - 1) div b * b" by arith
  then show ?thesis by (simp add: sub_batches_def concat_sub_batches_take)
qed

lemma sub_batches_nonempty: "0 < b \<Longrightarrow> X \<noteq> [] \<Longrightarrow> sub_batches X b \<noteq> []"
  using concat_sub_batches [of b X] by auto

lemma traverse_length: "traverse f xs = Inr ys \<Longrightarrow> length ys = length xs"
  by (induction xs arbitrary: ys) (auto split: sum.splits)

lemma parallel_results:
  assumes rw: "rowwise calc" and "bs \<noteq> []"
  shows "(case traverse calc bs of Inl e \<Rightarrow> Inl e | Inr results \<Rightarrow> np_concatenate results) =
         calc (concat bs)"
  using assms(2)
proof (induction bs rule: list_nonempty_induct)
  case (single b)
  show ?case by (simp add: np_concatenate_def split: sum.splits)
next
  case (cons b bs)
  have split: "calc (b @ concat bs) =
        (case calc b of Inl e \<Rightarrow> Inl e
         | Inr rows_a \<Rightarrow> (case calc (concat bs) of Inl e \<Rightarrow> Inl e
                          | Inr rows_b \<Rightarrow> Inr (rows_a @ rows_b)))"
    using rw by (simp add: rowwise_def)
  show ?case
  proof (cases "traverse calc bs")
    case (Inl e)
    with cons.IH have "calc (concat bs) = Inl e" by simp
    with Inl show ?thesis by (simp add: split split: sum.splits)
  next
    case (Inr results)
    then have "length results = length bs" by (rule traverse_length)
    with cons.hyps have ne: "results \<noteq> []" by auto
    with cons.IH Inr have "calc (concat bs) = Inr (concat results)"
      by (simp add: np_concatenate_def)
    with Inr ne show ?thesis
      by (simp add: split np_concatenate_def split: sum.splits)
  qed
qed

lemma transform_parallel_eq_sequential:
  assumes n: "1 < n_jobs self" and ne: "X \<noteq> []" and rw: "rowwise (calculate_fingerprint self)"
  shows "transform self MolFromSmiles X = transform (self\<lparr>n_jobs := 1\<rparr>) MolFromSmiles X"
proof (cases "validate_input MolFromSmiles X")
  case (Pair X' err)
  show ?thesis
  proof (cases err)
    case (Some e)
    with Pair show ?thesis by (simp add: transform_def)
  next
    case None
    have "length X' = length X"
      using validate_loop_frame [of MolFromSmiles 0 X] Pair by (simp add: validate_input_def)
    with ne have X': "X' \<noteq> []" by auto
    define b where "b = max (length X' div n_jobs self) 1"
    have b: "0 < b" by (simp add: b_def)
    have c: "concat (sub_batches X' b) = X'" by (rule concat_sub_batches [OF b])
    have "(case traverse (calculate_fingerprint self) (sub_batches X' b) of
             Inl e \<Rightarrow> Inl e | Inr results \<Rightarrow> np_concatenate results) =
          calculate_fingerprint self (concat (sub_batches X' b))"
      by (rule parallel_results [OF rw sub_batches_nonempty [OF b X']])
    then have "(case traverse (calculate_fingerprint self) (sub_batches X' b) of
             Inl e \<Rightarrow> (X', Inl e) | Inr results \<Rightarrow> (X', np_concatenate results)) =
          (X', calculate_fingerprint self X')"
      unfolding c by (simp split: sum.splits)
    then show ?thesis
      using n Pair None by (simp add: transform_def Let_def b_def)
  qed
qed

lemma dict_incr_map:
  "distinct xs \<Longrightarrow>
   dict_incr (map (\<lambda>s. (s, c s)) xs) k =
     (if k \<in> set xs then map (\<lambda>s. (s, if s = k then c s + 1 else c s)) xs
      else map (\<lambda>s. (s, c s)) xs @ [(k, 1)])"
  by (induction xs) auto

lemma spec_distinct_snoc:
  "spec_distinct (ks @ [k]) = (if k \<in> set ks then spec_distinct ks else spec_distinct ks @ [k])"
  by (simp add: spec_distinct_def)

lemma spec_distinct_props:
  "distinct (spec_distinct ks)" "set (spec_distinct ks) = set ks"
  by (simp_all add: spec_distinct_def)

lemma dict_fold_counts:
  "fold (\<lambda>k dct. dict_incr dct k) ks [] = map (\<lambda>s. (s, count_list ks s)) (spec_distinct ks)"
proof (induction ks rule: rev_induct)
  case Nil
  show ?case by (simp add: spec_distinct_def)
next
  case (snoc k ks)
  show ?case
  proof (cases "k \<in> set ks")
    case True
    then show ?thesis
      by (simp add: snoc.IH dict_incr_map spec_distinct_props spec_distinct_snoc)
  next
    case False
    then have "\<And>s. s \<in> set (spec_distinct ks) \<Longrightarrow> s \<noteq> k"
      by (auto simp: spec_distinct_props)
    with False show ?thesis
      by (auto simp: snoc.IH dict_incr_map spec_distinct_props spec_distinct_snoc)
  qed
qed

lemma count_entries_eq:
  "map (\<lambda>(shingle, shingle_count). shingle @ ''|'' @ py_str (int shingle_count))
     (fold (\<lambda>k dct. dict_incr dct k) ks []) = spec_count_entries ks"
  by (simp add: dict_fold_counts spec_count_entries_def o_def)

lemma parsed_not_str: "\<not> is_str x \<Longrightarrow> parsed p x = x"
  by (cases x) simp_all

lemma validate_loop_exact:
  "i \<le> length X \<Longrightarrow>
   fst (validate_loop p i X) =
     take i X @ map (parsed p) (takeWhile accepted (drop i X)) @ dropWhile accepted (drop i X)"
proof (induction p i X rule: validate_loop.induct)
  case (1 p i X)
  show ?case
  proof (cases "length X \<le> i")
    case True
    then show ?thesis by (simp add: validate_loop.simps [of p i X])
  next
    case False
    then have d: "drop i X = X ! i # drop (Suc i) X"
      by (simp add: Cons_nth_drop_Suc)
    show ?thesis
    proof (cases "accepted (X ! i)")
      case rejected: False
      with False show ?thesis
        using id_take_nth_drop [of i X]
        by (simp add: validate_loop.simps [of p i X] d accepted_def)
    next
      case True
      let ?X' = "X [i := parsed p (X ! i)]"
      have same: "(if is_str (X ! i) then ?X' else X) = ?X'"
        by (simp add: parsed_not_str)
      have step: "validate_loop p i X = validate_loop p (Suc i) ?X'"
        using False True
        by (subst validate_loop.simps) (auto simp: Let_def accepted_def same)
      have "fst (validate_loop p (Suc i) (if is_str (X ! i) then ?X' else X)) =
            take (Suc i) (if is_str (X ! i) then ?X' else X) @
            map (parsed p)
              (takeWhile accepted (drop (Suc i) (if is_str (X ! i) then ?X' else X))) @
            dropWhile accepted (drop (Suc i) (if is_str (X ! i) then ?X' else X))"
        using False True by (intro "1.IH") (auto simp: accepted_def)
      then have IH: "fst (validate_loop p (Suc i) ?X') =
            take (Suc i) ?X' @ map (parsed p) (takeWhile accepted (drop (Suc i) ?X')) @
            dropWhile accepted (drop (Suc i) ?X')"
        by (simp only: same)
      have t: "take (Suc i) ?X' = take i X @ [parsed p (X ! i)]"
        using False by (simp add: take_Suc_conv_app_nth)
      show ?thesis
        using True by (simp add: step IH t d)
    qed
  qed
qed

lemma validate_input_exact:
  "fst (validate_input p X) = map (parsed p) (takeWhile accepted X) @ dropWhile accepted X"
  using validate_loop_exact [of 0 X p] by (simp add: validate_input_def)

section \<open>The claims\<close>

text \<open>
  Claim C1, as amended. In the \<open>count\<close> variant the shingles are first aggregated in
  \<open>shingle_dict\<close>, and one string per distinct shingle (with its number of occurrences
  appended) is hashed. So the entries of the count vector of a molecule sum to the number
  of distinct shingle strings among the (atom pair, radius) combinations whose two
  neighbourhoods both exist, not to the number of such combinations.
\<close>

theorem C1_count_vector_sum:
  assumes "variant self = CountVariant" and "sha1_digest_size lib" and "0 < fp_size self"
    and "smiles_nonempty mol"
  shows "\<exists>fp. calculate_single_mol_fingerprint lib self mol = Inr fp \<and>
              sum_list fp = card (set (spec_occurrences self mol (get_atom_envs self mol)))"
  using assms by (rule count_fingerprint_sum)

theorem C1_count_vector_sum_witness:
  "variant count_config = CountVariant \<and> sha1_digest_size example_library \<and>
   0 < fp_size count_config \<and> smiles_nonempty cyclobutane \<and>
   (\<exists>fp. calculate_single_mol_fingerprint example_library count_config cyclobutane = Inr fp \<and>
         sum_list fp =
         card (set (spec_occurrences count_config cyclobutane
                      (get_atom_envs count_config cyclobutane))))"
proof -
  have v: "variant count_config = CountVariant" and p: "0 < fp_size count_config"
    by (simp_all add: count_config_def)
  from C1_count_vector_sum [OF v sha1_digest_size_example p smiles_nonempty_cyclobutane]
    v sha1_digest_size_example p smiles_nonempty_cyclobutane show ?thesis by blast
qed

theorem C1_count_vector_sum_counterexample:
  "calculate_single_mol_fingerprint example_library count_config cyclobutane
     = Inr [0, 0, 3, 0, 2, 0, 0, 0] \<and>
   spec_occurrences count_config cyclobutane (get_atom_envs count_config cyclobutane)
     = [''C(C)C|1|C1CCC1'', ''C1CCC1|1|CCC'', ''C(C)C|2|C1CCC1'', ''C1CCC1|2|CCC'',
        ''C1CCC1|1|C1CCC1'', ''C1CCC1|1|C1CCC1''] \<and>
   sum_list [0, 0, 3, 0, 2, 0, 0, 0 :: nat] \<noteq>
     length [''C(C)C|1|C1CCC1'', ''C1CCC1|1|CCC'', ''C(C)C|2|C1CCC1'', ''C1CCC1|2|CCC'',
             ''C1CCC1|1|C1CCC1'', ''C1CCC1|1|C1CCC1'']"
proof -
  have "radius count_config = 2" by (simp add: count_config_def)
  then show ?thesis
    by (simp add: cyclobutane_count_fingerprint cyclobutane_spec_occurrences)
qed

text \<open>
  Claim C2 at the empty input sequence. With more than one worker there is no sub-batch,
  so \<open>np.concatenate\<close> receives an empty list and raises \<open>ValueError\<close>; with one worker
  \<open>transform\<close> returns what the subclass method returns on the empty sequence. For a
  non-empty input and a row-wise subclass method the two agree, row for row, in the order
  of the input (lemma \<open>transform_parallel_eq_sequential\<close>).
\<close>

theorem C2_transform_empty_input:
  "snd (transform (self\<lparr>n_jobs := 2\<rparr>) MolFromSmiles []) = Inl ValueError \<and>
   snd (transform (self\<lparr>n_jobs := 1\<rparr>) MolFromSmiles []) = calculate_fingerprint self []"
  by (simp add: transform_def validate_input_def validate_loop.simps sub_batches_def
      np_concatenate_def)

text \<open>
  Claim C3, as amended. Validation tests the type of each element: it raises \<open>ValueError\<close>
  exactly when some element is neither a molecule object nor a string, and then
  \<open>transform\<close> raises this error and returns no matrix.
\<close>

theorem C3_validation_error:
  "snd (validate_input MolFromSmiles X) =
     (if \<exists>x \<in> set X. \<not> is_Mol x \<and> \<not> is_str x then Some ValueError else None) \<and>
   ((\<exists>x \<in> set X. \<not> is_Mol x \<and> \<not> is_str x) \<longrightarrow>
      snd (transform self MolFromSmiles X) = Inl ValueError)"
proof (intro conjI impI)
  show "snd (validate_input MolFromSmiles X) =
     (if \<exists>x \<in> set X. \<not> is_Mol x \<and> \<not> is_str x then Some ValueError else None)"
    by (rule validate_input_error)
next
  assume "\<exists>x \<in> set X. \<not> is_Mol x \<and> \<not> is_str x"
  then have "snd (validate_input MolFromSmiles X) = Some ValueError"
    by (simp only: validate_input_error if_True)
  then show "snd (transform self MolFromSmiles X) = Inl ValueError"
    by (cases "validate_input MolFromSmiles X") (simp add: transform_def)
qed

theorem C3_validation_error_witness:
  "(\<exists>x \<in> set [MolObj ethane, OtherObj]. \<not> is_Mol x \<and> \<not> is_str x) \<and>
   snd (transform (example_transformer 2) example_MolFromSmiles [MolObj ethane, OtherObj])
     = Inl ValueError"
  using C3_validation_error [of example_MolFromSmiles "[MolObj ethane, OtherObj]" "example_transformer 2"]
  by simp

theorem C3_unparseable_string_counterexample:
  "\<not> is_Mol (StrObj ''C('') \<and> example_MolFromSmiles ''C('' = None \<and>
   validate_input example_MolFromSmiles [StrObj ''C(''] = ([NoneObj], None)"
  by (simp add: validate_input_def validate_loop.simps example_MolFromSmiles_def)

text \<open>
  Claim C4, as amended. \<open>transform\<close> keeps the length and the order of the caller's
  sequence, and updates it in place: every element before the first one that is neither a
  molecule object nor a string (every element, when there is none) is replaced by the
  object that the parser returns for it when it is a string, and is left as it is
  otherwise; the elements from that one on are left as they are. In particular an element
  that is not a string is never replaced.
\<close>

theorem C4_transform_frame:
  "fst (transform self MolFromSmiles X) =
     map (parsed MolFromSmiles) (takeWhile accepted X) @ dropWhile accepted X \<and>
   length (fst (transform self MolFromSmiles X)) = length X \<and>
   (list_all accepted X \<longrightarrow>
      fst (transform self MolFromSmiles X) = map (parsed MolFromSmiles) X) \<and>
   (\<forall>k < length X. \<not> is_str (X ! k) \<longrightarrow> fst (transform self MolFromSmiles X) ! k = X ! k)"
proof (intro conjI impI allI)
  show e: "fst (transform self MolFromSmiles X) =
     map (parsed MolFromSmiles) (takeWhile accepted X) @ dropWhile accepted X"
    by (simp only: fst_transform validate_input_exact)
  show "length (fst (transform self MolFromSmiles X)) = length X"
    using validate_loop_frame [of MolFromSmiles 0 X]
    by (simp add: fst_transform validate_input_def)
  show "fst (transform self MolFromSmiles X) = map (parsed MolFromSmiles) X"
    if "list_all accepted X"
  proof -
    from that have tw: "takeWhile accepted X = X" and dw: "dropWhile accepted X = []"
      by (simp_all add: list_all_iff takeWhile_eq_all_conv)
    show ?thesis by (simp only: e tw dw append_Nil2)
  qed
  show "fst (transform self MolFromSmiles X) ! k = X ! k"
    if "k < length X" and "\<not> is_str (X ! k)" for k
    using validate_loop_frame [of MolFromSmiles 0 X] that
    by (auto simp: fst_transform validate_input_def)
qed

theorem C4_transform_frame_witness:
  "list_all accepted [MolObj ethane, StrObj ''C1CCC1''] \<and>
   fst (transform (example_transformer 1) example_MolFromSmiles
          [MolObj ethane, StrObj ''C1CCC1'']) = [MolObj ethane, MolObj cyclobutane] \<and>
   (0 :: nat) < length [MolObj ethane, StrObj ''C1CCC1''] \<and>
   \<not> is_str ([MolObj ethane, StrObj ''C1CCC1''] ! 0) \<and>
   fst (transform (example_transformer 1) example_MolFromSmiles
          [MolObj ethane, StrObj ''C1CCC1'']) ! 0 = MolObj ethane"
proof -
  let ?X = "[MolObj ethane, StrObj ''C1CCC1'']"
  have a: "list_all accepted ?X" by (simp add: accepted_def)
  from C4_transform_frame [of "example_transformer 1" example_MolFromSmiles ?X] a
  have "fst (transform (example_transformer 1) example_MolFromSmiles ?X) =
        map (parsed example_MolFromSmiles) ?X"
    by blast
  then show ?thesis
    using a by (simp add: example_MolFromSmiles_def)
qed

theorem C4_input_replaced_counterexample:
  "fst (transform (example_transformer 1) example_MolFromSmiles [StrObj ''CC'']) = [MolObj ethane] \<and>
   [MolObj ethane] \<noteq> [StrObj ''CC'']"
  by (simp add: fst_transform validate_input_def validate_loop.simps example_MolFromSmiles_def)

text \<open>
  Claim C5. With a digest of 20 bytes and a positive output size, \<open>_get_hash\<close> returns the
  first four digest bytes read as an unsigned little-endian integer, which is below
  \<open>2 ^ 32\<close>; the bucket index of every shingle is this value modulo the output size, and
  it is below the output size.
\<close>

theorem C5_bucket_index:
  assumes "sha1_digest_size lib" and "0 < fp_size self"
  shows "get_hash lib shingle = Inr (spec_le32 (hashlib_sha1 lib shingle)) \<and>
         spec_le32 (hashlib_sha1 lib shingle) < 2 ^ 32 \<and>
         fold_bits lib self shingles = Inr (map (spec_bucket_index lib (fp_size self)) shingles) \<and>
         spec_bucket_index lib (fp_size self) shingle < fp_size self"
proof -
  have "4 \<le> length (hashlib_sha1 lib shingle)"
    using assms(1) by (simp add: sha1_digest_size_def)
  then have "spec_le32 (hashlib_sha1 lib shingle) < 2 ^ 32" by (rule spec_le32_less)
  then show ?thesis
    using assms by (simp add: get_hash_eq fold_bits_eq spec_bucket_index_def)
qed

theorem C5_bucket_index_witness:
  "sha1_digest_size example_library \<and> 0 < fp_size bit_config \<and>
   get_hash example_library (encode ''C(C)C|1|C1CCC1'') = Inr 2911924361 \<and>
   fold_bits example_library bit_config [encode ''C(C)C|1|C1CCC1''] = Inr [1] \<and>
   (1 :: nat) < fp_size bit_config"
proof -
  have p: "0 < fp_size bit_config" and s: "fp_size bit_config = 8"
    by (simp_all add: bit_config_def)
  have k: "hashlib_sha1 example_library (encode ''C(C)C|1|C1CCC1'') =
      [137, 112, 144, 173, 235, 183, 143, 190, 78, 120, 18, 167, 61, 246, 136, 45, 128, 108, 17, 199]"
    by (simp add: example_library_def known_sha1_def encode_def)
  have v: "spec_le32 (hashlib_sha1 example_library (encode ''C(C)C|1|C1CCC1'')) = 2911924361"
    by (simp add: k spec_le32_def)
  from C5_bucket_index [OF sha1_digest_size_example p, of "encode ''C(C)C|1|C1CCC1''"
      "[encode ''C(C)C|1|C1CCC1'']"]
    sha1_digest_size_example p
  show ?thesis by (simp add: v s spec_bucket_index_def)
qed

text \<open>
  Claim C6. On a neighbourhood table that fits the molecule, in every variant, the
  shingles come from the occurrences of the specification: for every pair \<open>i < j\<close> of
  atom indices, taken once, and every radius, a shingle if and only if both neighbourhood
  strings exist, made of the smaller string, the truncated distance and the larger string
  joined by \<open>|\<close>. Outside the \<open>count\<close> variant \<open>_get_atom_pair_shingles\<close> returns these
  occurrences, duplicates included, encoded; in the \<open>count\<close> variant it returns one
  entry per distinct occurrence, in the order of first occurrence, with the number of
  occurrences appended.
\<close>

theorem C6_shingles_refine_spec:
  assumes "envs_ok self mol envs"
  shows "get_atom_pair_shingles self mol envs =
           Inr (map encode
                  (if variant self = CountVariant
                   then spec_count_entries (spec_occurrences self mol envs)
                   else spec_occurrences self mol envs)) \<and>
         distinct (spec_distinct (spec_occurrences self mol envs)) \<and>
         set (spec_distinct (spec_occurrences self mol envs)) =
           set (spec_occurrences self mol envs) \<and>
         distinct (combinations2 (GetNumAtoms mol)) \<and>
         (\<forall>i j. (i, j) \<in> set (combinations2 (GetNumAtoms mol)) \<longleftrightarrow> i < j \<and> j < GetNumAtoms mol)"
proof -
  have "\<And>idx. idx < GetNumAtoms mol \<Longrightarrow> radius self \<le> length (envs idx)"
    using envs_okD [OF assms] by simp
  then have "get_atom_pair_shingles self mol envs =
     Inr (map encode
       (if variant self = CountVariant
        then map (\<lambda>(shingle, shingle_count). shingle @ ''|'' @ py_str (int shingle_count))
               (fold (\<lambda>k dct. dict_incr dct k)
                  (pair_occurrences self mol envs (combinations2 (GetNumAtoms mol))) [])
        else pair_occurrences self mol envs (combinations2 (GetNumAtoms mol))))"
    by (rule get_atom_pair_shingles_eq)
  then have "get_atom_pair_shingles self mol envs =
           Inr (map encode
                  (if variant self = CountVariant
                   then spec_count_entries (spec_occurrences self mol envs)
                   else spec_occurrences self mol envs))"
    by (simp only: count_entries_eq pair_occurrences_spec [OF assms])
  then show ?thesis
    by (simp add: spec_distinct_props distinct_combinations2 combinations2_iff)
qed

theorem C6_shingles_refine_spec_witness:
  "envs_ok count_config cyclobutane (get_atom_envs count_config cyclobutane) \<and>
   variant count_config = CountVariant \<and>
   spec_occurrences count_config cyclobutane (get_atom_envs count_config cyclobutane) =
     [''C(C)C|1|C1CCC1'', ''C1CCC1|1|CCC'', ''C(C)C|2|C1CCC1'', ''C1CCC1|2|CCC'',
      ''C1CCC1|1|C1CCC1'', ''C1CCC1|1|C1CCC1''] \<and>
   get_atom_pair_shingles count_config cyclobutane (get_atom_envs count_config cyclobutane) =
     Inr (map encode
            [''C(C)C|1|C1CCC1|1'', ''C1CCC1|1|CCC|1'', ''C(C)C|2|C1CCC1|1'', ''C1CCC1|2|CCC|1'',
             ''C1CCC1|1|C1CCC1|2''])"
proof -
  have v: "variant count_config = CountVariant" and r: "radius count_config = 2"
    by (simp_all add: count_config_def)
  have ok: "envs_ok count_config cyclobutane (get_atom_envs count_config cyclobutane)"
    by (rule envs_ok_get_atom_envs) (rule smiles_nonempty_cyclobutane)
  have c: "spec_count_entries
      [''C(C)C|1|C1CCC1'', ''C1CCC1|1|CCC'', ''C(C)C|2|C1CCC1'', ''C1CCC1|2|CCC'',
       ''C1CCC1|1|C1CCC1'', ''C1CCC1|1|C1CCC1''] =
      [''C(C)C|1|C1CCC1|1'', ''C1CCC1|1|CCC|1'', ''C(C)C|2|C1CCC1|1'', ''C1CCC1|2|CCC|1'',
       ''C1CCC1|1|C1CCC1|2'']"
    by (simp add: spec_count_entries_def spec_distinct_def py_str_vals)
  from C6_shingles_refine_spec [OF ok] v ok show ?thesis
    by (simp add: cyclobutane_spec_occurrences [OF r] c)
qed

text \<open>
  Claim C7. For every molecule and every configuration with a positive output size (and a
  digest of 20 bytes), the fingerprint of one molecule is computed without an exception
  and has exactly as many entries as the output size, in each of the three variants.
\<close>

theorem C7_fingerprint_length:
  assumes "sha1_digest_size lib" and "0 < fp_size self"
  shows "\<exists>fp. calculate_single_mol_fingerprint lib self mol = Inr fp \<and> length fp = fp_size self"
proof -
  obtain shingles where "get_atom_pair_shingles self mol (get_atom_envs self mol) = Inr shingles"
    using get_atom_pair_shingles_envs by blast
  then show ?thesis
    using encode_shingles_length [OF assms, of shingles]
    by (simp add: calculate_single_mol_fingerprint_def)
qed

theorem C7_fingerprint_length_witness:
  "sha1_digest_size example_library \<and> 0 < fp_size bit_config \<and>
   (\<exists>fp. calculate_single_mol_fingerprint example_library bit_config cyclobutane = Inr fp \<and>
         length fp = fp_size bit_config)"
proof -
  have p: "0 < fp_size bit_config" by (simp add: bit_config_def)
  from C7_fingerprint_length [OF sha1_digest_size_example p] sha1_digest_size_example p
  show ?thesis by blast
qed

text \<open>
  Claim C8. When the distance matrix has the same entry for \<open>(i, j)\<close> and \<open>(j, i)\<close>,
  exchanging the two atoms gives the same shingle string, and the loop over the radii
  leaves the same state for the pair \<open>(j, i)\<close> as for the pair \<open>(i, j)\<close>.
\<close>

theorem C8_pair_order_independent:
  assumes "GetDistanceMatrix mol i j = GetDistanceMatrix mol j i"
  shows "shingle_str env_i (py_str (py_int (GetDistanceMatrix mol i j))) env_j =
         shingle_str env_j (py_str (py_int (GetDistanceMatrix mol j i))) env_i \<and>
         pair_loop self mol envs [(i, j)] st = pair_loop self mol envs [(j, i)] st"
  using assms
  by (simp add: Let_def shingle_str_commute radius_loop_commute [of self _ "envs i" "envs j"])

theorem C8_pair_order_independent_witness:
  "GetDistanceMatrix cyclobutane 1 3 = GetDistanceMatrix cyclobutane 3 1 \<and>
   shingle_str ''C(C)C'' (py_str (py_int (GetDistanceMatrix cyclobutane 1 3))) ''C1CCC1'' =
   shingle_str ''C1CCC1'' (py_str (py_int (GetDistanceMatrix cyclobutane 3 1))) ''C(C)C'' \<and>
   pair_loop bit_config cyclobutane (get_atom_envs bit_config cyclobutane) [(1, 3)] ([], []) =
   pair_loop bit_config cyclobutane (get_atom_envs bit_config cyclobutane) [(3, 1)] ([], [])"
proof -
  have d: "GetDistanceMatrix cyclobutane 1 3 = GetDistanceMatrix cyclobutane 3 1"
    by (simp add: cyclobutane_def)
  from C8_pair_order_independent [OF d] d show ?thesis by blast
qed

text \<open>
  Claim C9. \<open>_find_neighborhood\<close> returns \<open>None\<close> exactly when the toolkit raises
  \<open>ValueError\<close> for the extraction or the atom is missing from the atom map of the
  sub-molecule. When this holds for every atom at the largest radius (as for a molecule
  of two atoms at radius 2), the entry of that radius is \<open>None\<close> for every atom and the
  shingles are those of the configuration with the radius one less: the largest radius
  contributes none.
\<close>

theorem C9_neighborhood_absent:
  "(find_neighborhood mol atom_idx n_radius = None \<longleftrightarrow>
      extraction_absent mol atom_idx n_radius) \<and>
   (radius self = Suc R \<and>
    list_all (\<lambda>idx. extraction_absent mol idx (Suc R)) [0 ..< GetNumAtoms mol] \<longrightarrow>
      list_all (\<lambda>idx. get_atom_envs self mol idx ! R = None) [0 ..< GetNumAtoms mol] \<and>
      get_atom_pair_shingles self mol (get_atom_envs self mol) =
      get_atom_pair_shingles (self\<lparr>radius := R\<rparr>) mol
        (get_atom_envs (self\<lparr>radius := R\<rparr>) mol))"
proof (intro conjI impI)
  show "find_neighborhood mol atom_idx n_radius = None \<longleftrightarrow>
        extraction_absent mol atom_idx n_radius"
    by (rule find_neighborhood_None_iff)
next
  assume h: "radius self = Suc R \<and>
    list_all (\<lambda>idx. extraction_absent mol idx (Suc R)) [0 ..< GetNumAtoms mol]"
  then show "list_all (\<lambda>idx. get_atom_envs self mol idx ! R = None) [0 ..< GetNumAtoms mol]"
    by (simp add: list_all_iff get_atom_envs_eq find_neighborhood_None_iff nth_append
        del: upt_Suc)
next
  assume h: "radius self = Suc R \<and>
    list_all (\<lambda>idx. extraction_absent mol idx (Suc R)) [0 ..< GetNumAtoms mol]"
  let ?self' = "self\<lparr>radius := R\<rparr>"
  have occ: "pair_occurrences self mol (get_atom_envs self mol) (combinations2 (GetNumAtoms mol)) =
      pair_occurrences ?self' mol (get_atom_envs ?self' mol) (combinations2 (GetNumAtoms mol))"
    using h by (intro pair_occurrences_drop_radius) (auto simp: combinations2_iff)
  have a: "get_atom_pair_shingles self mol (get_atom_envs self mol) =
     Inr (map encode
       (if variant self = CountVariant
        then map (\<lambda>(shingle, shingle_count). shingle @ ''|'' @ py_str (int shingle_count))
               (fold (\<lambda>k dct. dict_incr dct k)
                  (pair_occurrences self mol (get_atom_envs self mol)
                     (combinations2 (GetNumAtoms mol))) [])
        else pair_occurrences self mol (get_atom_envs self mol)
               (combinations2 (GetNumAtoms mol))))"
    by (rule get_atom_pair_shingles_eq) (simp add: length_get_atom_envs)
  have b: "get_atom_pair_shingles ?self' mol (get_atom_envs ?self' mol) =
     Inr (map encode
       (if variant ?self' = CountVariant
        then map (\<lambda>(shingle, shingle_count). shingle @ ''|'' @ py_str (int shingle_count))
               (fold (\<lambda>k dct. dict_incr dct k)
                  (pair_occurrences ?self' mol (get_atom_envs ?self' mol)
                     (combinations2 (GetNumAtoms mol))) [])
        else pair_occurrences ?self' mol (get_atom_envs ?self' mol)
               (combinations2 (GetNumAtoms mol))))"
    by (rule get_atom_pair_shingles_eq) (simp add: length_get_atom_envs)
  show "get_atom_pair_shingles self mol (get_atom_envs self mol) =
      get_atom_pair_shingles ?self' mol (get_atom_envs ?self' mol)"
    by (simp add: a b occ)
qed

theorem C9_neighborhood_absent_witness:
  "radius bit_config = Suc 1 \<and>
   list_all (\<lambda>idx. extraction_absent ethane idx (Suc 1)) [0 ..< GetNumAtoms ethane] \<and>
   list_all (\<lambda>idx. get_atom_envs bit_config ethane idx ! 1 = None) [0 ..< GetNumAtoms ethane] \<and>
   get_atom_pair_shingles bit_config ethane (get_atom_envs bit_config ethane) =
   get_atom_pair_shingles (bit_config\<lparr>radius := 1\<rparr>) ethane
     (get_atom_envs (bit_config\<lparr>radius := 1\<rparr>) ethane)"
proof -
  have r: "radius bit_config = Suc 1" by (simp add: bit_config_def)
  have a: "list_all (\<lambda>idx. extraction_absent ethane idx (Suc 1)) [0 ..< GetNumAtoms ethane]"
    by (simp add: list_all_iff extraction_absent_def ethane_def)
  from C9_neighborhood_absent [of ethane 0 0 bit_config 1] r a
  show ?thesis by blast
qed

text \<open>
  Claim C10. With radius 0 no shingle is generated, and in the \<open>bit\<close> and \<open>count\<close>
  variants the fingerprint of every molecule is the vector of zeros whose length is the
  output size.
\<close>

theorem C10_radius_zero_fingerprint:
  assumes "radius self = 0" and "variant self \<noteq> RawHashes"
  shows "get_atom_pair_shingles self mol (get_atom_envs self mol) = Inr [] \<and>
         calculate_single_mol_fingerprint lib self mol = Inr (replicate (fp_size self) 0)"
proof -
  have s: "get_atom_pair_shingles self mol (get_atom_envs self mol) = Inr []"
    by (subst get_atom_pair_shingles_eq)
       (simp_all add: assms(1) pair_occurrences_radius_0)
  show ?thesis
    using assms(2)
    by (simp add: s calculate_single_mol_fingerprint_def encode_shingles_def fold_bits_def
        np_bincount_Nil)
qed

theorem C10_radius_zero_fingerprint_witness:
  "radius (bit_config\<lparr>radius := 0\<rparr>) = 0 \<and> variant (bit_config\<lparr>radius := 0\<rparr>) \<noteq> RawHashes \<and>
   get_atom_pair_shingles (bit_config\<lparr>radius := 0\<rparr>) cyclobutane
     (get_atom_envs (bit_config\<lparr>radius := 0\<rparr>) cyclobutane) = Inr [] \<and>
   calculate_single_mol_fingerprint example_library (bit_config\<lparr>radius := 0\<rparr>) cyclobutane =
     Inr (replicate 8 0)"
proof -
  have r: "radius (bit_config\<lparr>radius := 0\<rparr>) = 0"
    and v: "variant (bit_config\<lparr>radius := 0\<rparr>) \<noteq> RawHashes"
    and s: "fp_size (bit_config\<lparr>radius := 0\<rparr>) = 8"
    by (simp_all add: bit_config_def)
  from C10_radius_zero_fingerprint [OF r v, of cyclobutane example_library] r v show ?thesis
    by (simp only: s simp_thms)
qed

end
